theory Spec2Isabelle
  imports Main
begin

section \<open>JavaScript strings and values\<close>

text \<open>
  The scraper \<^verbatim>\<open>src/data/duke_scraper_FULL_VERSION.js\<close> works on JavaScript strings.
  A string is modelled as a \<^typ>\<open>string\<close>, one \<^typ>\<open>char\<close> per UTF-16 code unit,
  which covers the texts whose code units are below 256 (ASCII and Latin-1).  On that range
  \<^verbatim>\<open>length\<close>, \<^verbatim>\<open>substring\<close>, \<^verbatim>\<open>includes\<close>, \<^verbatim>\<open>trim\<close> and the regular
  expression classes are as defined below.
\<close>

text \<open>White space of \<^verbatim>\<open>\s\<close> and of \<^verbatim>\<open>String.prototype.trim\<close>: TAB, LF, VT, FF, CR,
  SPACE and NBSP are the members below code unit 256.\<close>

definition is_space :: "char \<Rightarrow> bool" where
  "is_space c = (c \<in> set [CHR 0x09, CHR 0x0A, CHR 0x0B, CHR 0x0C, CHR 0x0D, CHR 0x20, CHR 0xA0])"

text \<open>\<^verbatim>\<open>\d\<close> is \<^verbatim>\<open>[0-9]\<close>, \<^verbatim>\<open>\w\<close> is \<^verbatim>\<open>[A-Za-z0-9_]\<close>.\<close>

definition is_digit :: "char \<Rightarrow> bool" where
  "is_digit c = (c \<in> set ''0123456789'')"

definition is_word :: "char \<Rightarrow> bool" where
  "is_word c = (c \<in> set ''ABCDEFGHIJKLMNOPQRSTUVWXYZabcdefghijklmnopqrstuvwxyz0123456789_'')"

text \<open>Canonicalisation of the \<^verbatim>\<open>i\<close> flag (without the \<^verbatim>\<open>u\<close> flag): a code unit is
  mapped to its upper case, except that a code unit of 128 or more is never mapped to one
  below 128.  Every literal character of the patterns of the script is ASCII, so only the
  ASCII letters matter: no other code unit becomes equal to an ASCII one.\<close>

definition canonicalize :: "char \<Rightarrow> char" where
  "canonicalize c =
     (case map_of (zip ''abcdefghijklmnopqrstuvwxyz'' ''ABCDEFGHIJKLMNOPQRSTUVWXYZ'') c of
        Some u \<Rightarrow> u
      | None \<Rightarrow> c)"

definition ieq :: "char \<Rightarrow> char \<Rightarrow> bool" where
  "ieq c x = (canonicalize x = canonicalize c)"

text \<open>\<^verbatim>\<open>String.prototype.toLowerCase\<close> on code units below 256: the ASCII capitals and
  the Latin-1 capitals 0xC0..0xDE (but not the multiplication sign 0xD7) move up by 32.\<close>

definition latin1_upper :: "char list" where
  "latin1_upper =
     [CHR 0xC0, CHR 0xC1, CHR 0xC2, CHR 0xC3, CHR 0xC4, CHR 0xC5, CHR 0xC6, CHR 0xC7,
      CHR 0xC8, CHR 0xC9, CHR 0xCA, CHR 0xCB, CHR 0xCC, CHR 0xCD, CHR 0xCE, CHR 0xCF,
      CHR 0xD0, CHR 0xD1, CHR 0xD2, CHR 0xD3, CHR 0xD4, CHR 0xD5, CHR 0xD6, CHR 0xD8,
      CHR 0xD9, CHR 0xDA, CHR 0xDB, CHR 0xDC, CHR 0xDD, CHR 0xDE]"

definition latin1_lower :: "char list" where
  "latin1_lower =
     [CHR 0xE0, CHR 0xE1, CHR 0xE2, CHR 0xE3, CHR 0xE4, CHR 0xE5, CHR 0xE6, CHR 0xE7,
      CHR 0xE8, CHR 0xE9, CHR 0xEA, CHR 0xEB, CHR 0xEC, CHR 0xED, CHR 0xEE, CHR 0xEF,
      CHR 0xF0, CHR 0xF1, CHR 0xF2, CHR 0xF3, CHR 0xF4, CHR 0xF5, CHR 0xF6, CHR 0xF8,
      CHR 0xF9, CHR 0xFA, CHR 0xFB, CHR 0xFC, CHR 0xFD, CHR 0xFE]"

definition lower_char :: "char \<Rightarrow> char" where
  "lower_char c =
     (case map_of (zip (''ABCDEFGHIJKLMNOPQRSTUVWXYZ'' @ latin1_upper)
                       (''abcdefghijklmnopqrstuvwxyz'' @ latin1_lower)) c of
        Some l \<Rightarrow> l
      | None \<Rightarrow> c)"

definition toLowerCase :: "string \<Rightarrow> string" where
  "toLowerCase s = map lower_char s"

text \<open>\<^verbatim>\<open>text.includes(sub)\<close>: \<^verbatim>\<open>sub\<close> occurs in \<^verbatim>\<open>text\<close> as a contiguous block.\<close>

definition starts_with :: "string \<Rightarrow> string \<Rightarrow> bool" where
  "starts_with s sub = (take (length sub) s = sub)"

fun includes_str :: "string \<Rightarrow> string \<Rightarrow> bool" where
  "includes_str [] sub = (sub = [])"
| "includes_str (c # cs) sub = (starts_with (c # cs) sub \<or> includes_str cs sub)"

text \<open>\<^verbatim>\<open>text.trim()\<close>.\<close>

definition trim :: "string \<Rightarrow> string" where
  "trim s = rev (dropWhile is_space (rev (dropWhile is_space s)))"

text \<open>\<^verbatim>\<open>s.replace(/\s+/g, ' ')\<close>: every maximal run of white space becomes one space.\<close>

function collapse_ws :: "string \<Rightarrow> string" where
  "collapse_ws [] = []"
| "collapse_ws (c # cs) =
     (if is_space c then CHR '' '' # collapse_ws (dropWhile is_space cs)
      else c # collapse_ws cs)"
  by pat_completeness auto
termination
  by (relation "measure length") (auto simp: length_dropWhile_le less_Suc_eq_le)

text \<open>The values the script stores in an object: a string, or \<^verbatim>\<open>undefined\<close>.
  An object is the list of its own properties in insertion order.\<close>

datatype jsval = Str string | Undefined

type_synonym jsobj = "(string \<times> jsval) list"

text \<open>Exceptions: the \<^verbatim>\<open>TypeError\<close> of calling a method on \<^verbatim>\<open>undefined\<close>, and
  whatever a primitive of the page throws.\<close>

datatype error = TypeError | Thrown string

section \<open>Regular expressions\<close>

text \<open>
  A backtracking matcher for the part of the ECMAScript pattern language the script uses.
  A state of the matcher is the code unit before the cursor (for \<^verbatim>\<open>\b\<close>), the text from
  the cursor on, and capture group 1 (\<open>None\<close> while it has not taken part in the match).
  \<open>rmatch r st\<close> lists the states in which \<open>r\<close> can end when started in \<open>st\<close>, in the
  order in which backtracking tries them: the head of the list is the match.
\<close>

datatype regex =
    Atom "char \<Rightarrow> bool"
  | Eps
  | Seq regex regex
  | Alt regex regex
  | Star regex
  | LazyStar regex
  | Group regex
  | Look regex
  | Eos
  | WordB

type_synonym mstate = "char option \<times> string \<times> string option"

fun rmatch :: "regex \<Rightarrow> mstate \<Rightarrow> mstate list" where
  "rmatch (Atom P) (p, s, k) =
     (case s of [] \<Rightarrow> [] | c # cs \<Rightarrow> if P c then [(Some c, cs, k)] else [])"
| "rmatch Eps st = [st]"
| "rmatch (Seq a b) st = concat (map (rmatch b) (rmatch a st))"
| "rmatch (Alt a b) st = rmatch a st @ rmatch b st"
| "rmatch (Star a) (p, s, k) =
     concat (map (\<lambda>st'. if length (fst (snd st')) < length s then rmatch (Star a) st' else [])
                 (rmatch a (p, s, k)))
     @ [(p, s, k)]"
| "rmatch (LazyStar a) (p, s, k) =
     (p, s, k)
     # concat (map (\<lambda>st'. if length (fst (snd st')) < length s then rmatch (LazyStar a) st' else [])
                   (rmatch a (p, s, k)))"
| "rmatch (Group a) (p, s, k) =
     map (\<lambda>st'. (fst st', fst (snd st'), Some (take (length s - length (fst (snd st'))) s)))
         (rmatch a (p, s, k))"
| "rmatch (Look a) (p, s, k) =
     (case rmatch a (p, s, k) of [] \<Rightarrow> [] | st' # _ \<Rightarrow> [(p, s, snd (snd st'))])"
| "rmatch Eos (p, s, k) = (if s = [] then [(p, s, k)] else [])"
| "rmatch WordB (p, s, k) =
     (if (case p of None \<Rightarrow> False | Some c \<Rightarrow> is_word c)
         \<noteq> (case s of [] \<Rightarrow> False | c # _ \<Rightarrow> is_word c)
      then [(p, s, k)] else [])"

text \<open>\<^verbatim>\<open>text.match(re)\<close> and \<^verbatim>\<open>re.test(text)\<close> for a pattern without the \<^verbatim>\<open>g\<close> flag:
  the start positions are tried from left to right.  The result is \<open>None\<close> when the
  pattern matches nowhere, and \<open>Some k\<close> with capture group 1 otherwise (\<open>k = None\<close> is
  the \<^verbatim>\<open>undefined\<close> of a group that took no part).\<close>

fun rsearch :: "regex \<Rightarrow> char option \<Rightarrow> string \<Rightarrow> string option option" where
  "rsearch r p [] = (case rmatch r (p, [], None) of [] \<Rightarrow> None | st # _ \<Rightarrow> Some (snd (snd st)))"
| "rsearch r p (c # cs) =
     (case rmatch r (p, c # cs, None) of
        [] \<Rightarrow> rsearch r (Some c) cs
      | st # _ \<Rightarrow> Some (snd (snd st)))"

definition js_match :: "string \<Rightarrow> regex \<Rightarrow> string option option" where
  "js_match text r = rsearch r None text"

definition js_test :: "regex \<Rightarrow> string \<Rightarrow> bool" where
  "js_test r text = (js_match text r \<noteq> None)"

text \<open>Pattern syntax: \<^verbatim>\<open>r+\<close>, \<^verbatim>\<open>r?\<close>, a sequence, an alternation, and a literal
  under the \<^verbatim>\<open>i\<close> flag (every pattern below carries it).\<close>

abbreviation Plus :: "regex \<Rightarrow> regex" where
  "Plus r \<equiv> Seq r (Star r)"

abbreviation Opt :: "regex \<Rightarrow> regex" where
  "Opt r \<equiv> Alt r Eps"

definition seqs :: "regex list \<Rightarrow> regex" where
  "seqs rs = foldr Seq rs Eps"

fun alts :: "regex list \<Rightarrow> regex" where
  "alts [] = Eps"
| "alts [r] = r"
| "alts (r # rs) = Alt r (alts rs)"

definition lit :: "string \<Rightarrow> regex" where
  "lit s = foldr (\<lambda>c r. Seq (Atom (ieq c)) r) s Eps"

abbreviation ws :: regex where
  "ws \<equiv> Atom is_space"

abbreviation dg :: regex where
  "dg \<equiv> Atom is_digit"

section \<open>The patterns of the script\<close>

text \<open>Each pattern is written next to its source text.  \<^verbatim>\<open>[\d.]\<close> and \<^verbatim>\<open>[^\n]\<close> are
  atoms; \<^verbatim>\<open>[^]\<close> matches every code unit.\<close>

abbreviation num :: regex where
  \<comment> \<open>\<^verbatim>\<open>\d+\.?\d*\<close>\<close>
  "num \<equiv> seqs [Plus dg, Opt (lit ''.''), Star dg]"

definition re_calories1 :: regex where
  \<comment> \<open>\<^verbatim>\<open>/Calories(\d+)/i\<close>\<close>
  "re_calories1 = seqs [lit ''Calories'', Group (Plus dg)]"

definition re_calories2 :: regex where
  \<comment> \<open>\<^verbatim>\<open>/Calories\s+(\d+)/i\<close>\<close>
  "re_calories2 = seqs [lit ''Calories'', Plus ws, Group (Plus dg)]"

definition re_calories3 :: regex where
  \<comment> \<open>\<^verbatim>\<open>/Amount Per Serving\s+Calories\s*(\d+)/i\<close>\<close>
  "re_calories3 =
     seqs [lit ''Amount Per Serving'', Plus ws, lit ''Calories'', Star ws, Group (Plus dg)]"

definition re_calories4 :: regex where
  \<comment> \<open>\<^verbatim>\<open>/Calories[\s\n]*(\d+)/i\<close>\<close>
  "re_calories4 =
     seqs [lit ''Calories'', Star (Atom (\<lambda>c. is_space c \<or> c = CHR 0x0A)), Group (Plus dg)]"

definition re_serving1 :: regex where
  \<comment> \<open>\<^verbatim>\<open>/Serving Size\s+([\d.]+\s*oz\s*\([\d]+g\))/i\<close>\<close>
  "re_serving1 =
     seqs [lit ''Serving Size'', Plus ws,
           Group (seqs [Plus (Atom (\<lambda>c. is_digit c \<or> c = CHR ''.'')), Star ws, lit ''oz'',
                        Star ws, lit ''('', Plus dg, lit ''g'', lit '')''])]"

definition re_serving2 :: regex where
  \<comment> \<open>\<^verbatim>\<open>/Serving Size\s+([\d.]+\s*oz)/i\<close>\<close>
  "re_serving2 =
     seqs [lit ''Serving Size'', Plus ws,
           Group (seqs [Plus (Atom (\<lambda>c. is_digit c \<or> c = CHR ''.'')), Star ws, lit ''oz''])]"

definition re_serving3 :: regex where
  \<comment> \<open>\<^verbatim>\<open>/Serving Size\s+([^\n]+)/i\<close>\<close>
  "re_serving3 =
     seqs [lit ''Serving Size'', Plus ws, Group (Plus (Atom (\<lambda>c. c \<noteq> CHR 0x0A)))]"

definition re_total_fat :: regex where
  \<comment> \<open>\<^verbatim>\<open>/Total Fat\s+(\d+\.?\d*)g/i\<close>\<close>
  "re_total_fat = seqs [lit ''Total Fat'', Plus ws, Group num, lit ''g'']"

definition re_saturated_fat :: regex where
  \<comment> \<open>\<^verbatim>\<open>/Saturated Fat\s+(\d+\.?\d*g|NA)/i\<close>\<close>
  "re_saturated_fat =
     seqs [lit ''Saturated Fat'', Plus ws, Group (Alt (seqs [num, lit ''g'']) (lit ''NA''))]"

definition re_trans_fat :: regex where
  \<comment> \<open>\<^verbatim>\<open>/Trans Fat\s+(\d+\.?\d*g|NA)/i\<close>\<close>
  "re_trans_fat =
     seqs [lit ''Trans Fat'', Plus ws, Group (Alt (seqs [num, lit ''g'']) (lit ''NA''))]"

definition re_cholesterol :: regex where
  \<comment> \<open>\<^verbatim>\<open>/Cholesterol\s+(\d+mg|NA)/i\<close>\<close>
  "re_cholesterol =
     seqs [lit ''Cholesterol'', Plus ws, Group (Alt (seqs [Plus dg, lit ''mg'']) (lit ''NA''))]"

definition re_sodium :: regex where
  \<comment> \<open>\<^verbatim>\<open>/Sodium\s+(\d+)mg/i\<close>\<close>
  "re_sodium = seqs [lit ''Sodium'', Plus ws, Group (Plus dg), lit ''mg'']"

definition re_total_carbs :: regex where
  \<comment> \<open>\<^verbatim>\<open>/Total Carbohydrate\s+(\d+\.?\d*)g/i\<close>\<close>
  "re_total_carbs = seqs [lit ''Total Carbohydrate'', Plus ws, Group num, lit ''g'']"

definition re_fiber :: regex where
  \<comment> \<open>\<^verbatim>\<open>/Dietary Fiber\s+(<\s*\d+g|\d+\.?\d*g)/i\<close>\<close>
  "re_fiber =
     seqs [lit ''Dietary Fiber'', Plus ws,
           Group (Alt (seqs [lit ''<'', Star ws, Plus dg, lit ''g'']) (seqs [num, lit ''g'']))]"

definition re_sugars :: regex where
  \<comment> \<open>\<^verbatim>\<open>/Total Sugars\s+(\d+\.?\d*g)/i\<close>\<close>
  "re_sugars = seqs [lit ''Total Sugars'', Plus ws, Group (seqs [num, lit ''g''])]"

definition re_protein :: regex where
  \<comment> \<open>\<^verbatim>\<open>/Protein\s+(\d+\.?\d*)g/i\<close>\<close>
  "re_protein = seqs [lit ''Protein'', Plus ws, Group num, lit ''g'']"

definition re_ingredients :: regex where
  \<comment> \<open>\<^verbatim>\<open>/Ingredients:\s*([^]*?)(?=\*|Contains:|Allergen|Nutrition|$)/i\<close>\<close>
  "re_ingredients =
     seqs [lit ''Ingredients:'', Star ws, Group (LazyStar (Atom (\<lambda>c. True))),
           Look (alts [lit ''*'', lit ''Contains:'', lit ''Allergen'', lit ''Nutrition'', Eos])]"

definition re_row_serving :: regex where
  \<comment> \<open>\<^verbatim>\<open>/\d+\s*(oz|g|ml|cup|piece|portion|slice|each|item|serving)/i\<close>\<close>
  "re_row_serving =
     seqs [Plus dg, Star ws,
           Group (alts [lit ''oz'', lit ''g'', lit ''ml'', lit ''cup'', lit ''piece'',
                        lit ''portion'', lit ''slice'', lit ''each'', lit ''item'',
                        lit ''serving''])]"

definition re_word :: "string \<Rightarrow> regex" where
  \<comment> \<open>\<^verbatim>\<open>/\bVegan\b/i\<close> and its three siblings\<close>
  "re_word w = seqs [WordB, lit w, WordB]"

section \<open>Text extraction\<close>

definition bindE :: "error + 'a \<Rightarrow> ('a \<Rightarrow> error + 'b) \<Rightarrow> error + 'b" where
  "bindE m f = (case m of Inl e \<Rightarrow> Inl e | Inr a \<Rightarrow> f a)"

text \<open>\<^verbatim>\<open>extractMatch\<close> (lines 437--440): \<^verbatim>\<open>match ? match[1].trim() : ''\<close>.  Were group 1
  \<^verbatim>\<open>undefined\<close> in a match, \<^verbatim>\<open>.trim()\<close> would throw.\<close>

definition extractMatch :: "string \<Rightarrow> regex \<Rightarrow> error + string" where
  "extractMatch text r =
     (case js_match text r of
        None \<Rightarrow> Inr []
      | Some None \<Rightarrow> Inl TypeError
      | Some (Some c) \<Rightarrow> Inr (trim c))"

text \<open>\<^verbatim>\<open>extractIngredients\<close> (lines 442--448).\<close>

definition extractIngredients :: "string \<Rightarrow> error + string" where
  "extractIngredients text =
     (case js_match text re_ingredients of
        None \<Rightarrow> Inr []
      | Some None \<Rightarrow> Inl TypeError
      | Some (Some c) \<Rightarrow> Inr (take 2000 (collapse_ws (trim c))))"

text \<open>The calorie chain of \<^verbatim>\<open>extractNutritionFromModal\<close> (lines 387--408): a later
  pattern is tried only while \<^verbatim>\<open>calories\<close> is still the empty string; the fourth
  stores \<^verbatim>\<open>calMatch[1]\<close> as it is.\<close>

definition extract_calories :: "string \<Rightarrow> error + jsval" where
  "extract_calories text =
     bindE (extractMatch text re_calories1) (\<lambda>c1.
       if c1 \<noteq> [] then Inr (Str c1)
       else bindE (extractMatch text re_calories2) (\<lambda>c2.
         if c2 \<noteq> [] then Inr (Str c2)
         else bindE (extractMatch text re_calories3) (\<lambda>c3.
           if c3 \<noteq> [] then Inr (Str c3)
           else (case js_match text re_calories4 of
                   None \<Rightarrow> Inr (Str c3)
                 | Some None \<Rightarrow> Inr Undefined
                 | Some (Some c) \<Rightarrow> Inr (Str c)))))"

text \<open>The serving-size chain (lines 410--417).\<close>

definition extract_serving :: "string \<Rightarrow> error + string" where
  "extract_serving text =
     bindE (extractMatch text re_serving1) (\<lambda>s1.
       if s1 \<noteq> [] then Inr s1
       else bindE (extractMatch text re_serving2) (\<lambda>s2.
         if s2 \<noteq> [] then Inr s2
         else extractMatch text re_serving3))"

text \<open>An object literal whose property values are computed in order; the first exception
  ends the evaluation.\<close>

primrec object_of :: "(string \<times> (error + jsval)) list \<Rightarrow> error + jsobj" where
  "object_of [] = Inr []"
| "object_of (kv # kvs) =
     (case snd kv of
        Inl e \<Rightarrow> Inl e
      | Inr v \<Rightarrow> (case object_of kvs of Inl e \<Rightarrow> Inl e | Inr obj \<Rightarrow> Inr ((fst kv, v) # obj)))"

definition str_of :: "error + string \<Rightarrow> error + jsval" where
  "str_of m = bindE m (\<lambda>s. Inr (Str s))"

text \<open>The object \<^verbatim>\<open>nutrition\<close> built from the text of the modal (lines 384--434).\<close>

definition nutrition_of_text :: "string \<Rightarrow> error + jsobj" where
  "nutrition_of_text text =
     bindE (extract_calories text) (\<lambda>calories.
     bindE (extract_serving text) (\<lambda>serving.
       object_of
         [(''serving_size'', Inr (Str serving)),
          (''calories'', Inr calories),
          (''total_fat_g'', str_of (extractMatch text re_total_fat)),
          (''saturated_fat_g'', str_of (extractMatch text re_saturated_fat)),
          (''trans_fat_g'', str_of (extractMatch text re_trans_fat)),
          (''cholesterol_mg'', str_of (extractMatch text re_cholesterol)),
          (''sodium_mg'', str_of (extractMatch text re_sodium)),
          (''total_carbs_g'', str_of (extractMatch text re_total_carbs)),
          (''fiber_g'', str_of (extractMatch text re_fiber)),
          (''sugars_g'', str_of (extractMatch text re_sugars)),
          (''protein_g'', str_of (extractMatch text re_protein)),
          (''ingredients'', str_of (extractIngredients text))]))"

section \<open>The page\<close>

text \<open>
  The script runs in a browser console against a live document.  The document is a state
  of an arbitrary type \<open>'w\<close>; what the script can observe of it and do to it is a record of
  primitives, each of which may throw.  An element is what the script reads of it when a
  query returns it, together with a handle for clicking it.
\<close>

record element =
  handle :: nat
  tagName :: string
  textContent :: string
  visible :: bool  \<comment> \<open>\<^verbatim>\<open>offsetParent !== null\<close>\<close>
  glyph :: bool  \<comment> \<open>the text contains one of the two right-pointing triangles of line 225\<close>

text \<open>What the script reads of a table row: whether it holds a \<^verbatim>\<open>th\<close>, the texts of its
  \<^verbatim>\<open>td\<close> cells, the first match of \<^verbatim>\<open>a[href*="#"], a.item, td a\<close>, the \<^verbatim>\<open>alt\<close> and
  \<^verbatim>\<open>title\<close> of its images \<^verbatim>\<open>img[alt], img[title]\<close>, and its text.\<close>

record row =
  hasTh :: bool
  tds :: "string list"
  itemLink :: "element option"
  imgs :: "(string \<times> string) list"
  rowText :: string

datatype selector =
    Clickables  \<comment> \<open>\<^verbatim>\<open>a, button, [role="button"]\<close>\<close>
  | DetailsClosed  \<comment> \<open>\<^verbatim>\<open>details:not([open])\<close>\<close>
  | Summary  \<comment> \<open>\<^verbatim>\<open>summary\<close>\<close>
  | CategoryClass  \<comment> \<open>\<^verbatim>\<open>[class*="category"]\<close>\<close>
  | DropdownClass  \<comment> \<open>\<^verbatim>\<open>[class*="dropdown"]\<close>\<close>
  | Modals  \<comment> \<open>\<^verbatim>\<open>[class*="modal"], [class*="dialog"], [role="dialog"]\<close>\<close>
  | DivSection  \<comment> \<open>\<^verbatim>\<open>div, section\<close>\<close>
  | CloseAria  \<comment> \<open>\<^verbatim>\<open>button[aria-label*="lose"]\<close>\<close>
  | CloseClass  \<comment> \<open>\<^verbatim>\<open>button[class*="close"]\<close>\<close>
  | CloseButton  \<comment> \<open>\<^verbatim>\<open>button.close\<close>\<close>
  | ModalClose  \<comment> \<open>\<^verbatim>\<open>[class*="modal-close"]\<close>\<close>
  | CloseTitle  \<comment> \<open>\<^verbatim>\<open>button[title*="Close"]\<close>\<close>

record 'w dom =
  querySelectorAll :: "selector \<Rightarrow> 'w \<Rightarrow> error + element list"
  tableRows :: "'w \<Rightarrow> error + (nat \<times> row) list list"
    \<comment> \<open>the \<^verbatim>\<open>tr\<close> rows of every \<^verbatim>\<open>table\<close>, each with its handle\<close>
  viewRow :: "nat \<Rightarrow> 'w \<Rightarrow> error + row"
    \<comment> \<open>a row handle read again, at a later moment\<close>
  click :: "nat \<Rightarrow> 'w \<Rightarrow> error + 'w"
  pressEscape :: "'w \<Rightarrow> error + 'w"
    \<comment> \<open>\<^verbatim>\<open>document.dispatchEvent(new KeyboardEvent('keydown', ...))\<close>\<close>
  wait :: "nat \<Rightarrow> 'w \<Rightarrow> 'w"
    \<comment> \<open>what the page has become after so many milliseconds\<close>

text \<open>The state of the run: the page, the globals \<^verbatim>\<open>allData\<close> and
  \<^verbatim>\<open>totalItemsScraped\<close>, the console, and the contents of the files downloaded (the file
  name, which holds the time of day, is left out).  Console messages are kept without
  their decoration and their numbers.\<close>

datatype level = Log | Warn | Err

record 'w state =
  page :: 'w
  allData :: "jsobj list"
  totalItemsScraped :: nat
  console :: "(level \<times> string) list"
  downloads :: "string list"

type_synonym ('w, 'a) js = "'w state \<Rightarrow> (error + 'a) \<times> 'w state"

definition ret :: "'a \<Rightarrow> ('w, 'a) js" where
  "ret a s = (Inr a, s)"

definition andThen :: "('w, 'a) js \<Rightarrow> ('a \<Rightarrow> ('w, 'b) js) \<Rightarrow> ('w, 'b) js" where
  "andThen m f s = (case m s of (Inl e, s') \<Rightarrow> (Inl e, s') | (Inr a, s') \<Rightarrow> f a s')"

definition tryCatch :: "('w, 'a) js \<Rightarrow> (error \<Rightarrow> ('w, 'a) js) \<Rightarrow> ('w, 'a) js" where
  "tryCatch m h s = (case m s of (Inl e, s') \<Rightarrow> h e s' | (Inr a, s') \<Rightarrow> (Inr a, s'))"

definition logTo :: "level \<Rightarrow> string \<Rightarrow> ('w, unit) js" where
  "logTo l msg s = (Inr (), s\<lparr>console := console s @ [(l, msg)]\<rparr>)"

definition observe :: "('w \<Rightarrow> error + 'a) \<Rightarrow> ('w, 'a) js" where
  "observe f s = (case f (page s) of Inl e \<Rightarrow> (Inl e, s) | Inr a \<Rightarrow> (Inr a, s))"

definition act :: "('w \<Rightarrow> error + 'w) \<Rightarrow> ('w, unit) js" where
  "act f s = (case f (page s) of Inl e \<Rightarrow> (Inl e, s) | Inr w \<Rightarrow> (Inr (), s\<lparr>page := w\<rparr>))"

definition await :: "'w dom \<Rightarrow> nat \<Rightarrow> ('w, unit) js" where
  \<comment> \<open>\<^verbatim>\<open>await wait(ms)\<close>\<close>
  "await d ms s = (Inr (), s\<lparr>page := wait d ms (page s)\<rparr>)"

primrec forEach :: "'a list \<Rightarrow> ('a \<Rightarrow> ('w, unit) js) \<Rightarrow> ('w, unit) js" where
  "forEach [] f = ret ()"
| "forEach (x # xs) f = andThen (f x) (\<lambda>_. forEach xs f)"

definition message :: "error \<Rightarrow> string" where
  "message e = (case e of TypeError \<Rightarrow> ''TypeError'' | Thrown m \<Rightarrow> m)"

section \<open>Configuration\<close>

definition delayBetweenClicks :: nat where "delayBetweenClicks = 700"
definition delayAfterExpand :: nat where "delayAfterExpand = 400"
definition delayAfterRestaurant :: nat where "delayAfterRestaurant = 1500"

definition TEST_MODE :: bool where "TEST_MODE = False"
definition MAX_TEST_ITEMS :: nat where "MAX_TEST_ITEMS = 3"

record restaurant =
  name :: string
  unitOid :: nat

definition RESTAURANTS :: "restaurant list" where
  "RESTAURANTS =
     [\<lparr>name = ''Bella Union'', unitOid = 6\<rparr>,
      \<lparr>name = ''Beyu Blue Coffee'', unitOid = 24\<rparr>,
      \<lparr>name = ''Bseisu Coffee Bar'', unitOid = 10\<rparr>,
      \<lparr>name = ''Cafe'', unitOid = 14\<rparr>,
      \<lparr>name = ''Duke Marine Lab'', unitOid = 2\<rparr>,
      \<lparr>name = ''Freeman Caf'' @ [CHR 0xE9], unitOid = 3\<rparr>,
      \<lparr>name = ''Ginger + Soy'', unitOid = 22\<rparr>,
      \<lparr>name = ''Gothic Grill'', unitOid = 25\<rparr>,
      \<lparr>name = ''Gyotaku'', unitOid = 23\<rparr>,
      \<lparr>name = ''Il Forno'', unitOid = 20\<rparr>,
      \<lparr>name = ''It'' @ [CHR 0x27] @ ''s Thyme'', unitOid = 27\<rparr>,
      \<lparr>name = ''J.B.'' @ [CHR 0x27] @ ''s Roast & Chops'', unitOid = 7\<rparr>,
      \<lparr>name = ''Marketplace'', unitOid = 4\<rparr>,
      \<lparr>name = ''Nasher Museum Caf'' @ [CHR 0xE9], unitOid = 17\<rparr>,
      \<lparr>name = ''Red Mango'', unitOid = 18\<rparr>,
      \<lparr>name = ''Saladalia @ The Perk'', unitOid = 15\<rparr>,
      \<lparr>name = ''Sanford Deli'', unitOid = 16\<rparr>,
      \<lparr>name = ''Sazon'', unitOid = 21\<rparr>,
      \<lparr>name = ''Sprout'', unitOid = 11\<rparr>,
      \<lparr>name = ''Tandoor Indian Cuisine'', unitOid = 19\<rparr>,
      \<lparr>name = ''The Devils Krafthouse'', unitOid = 26\<rparr>,
      \<lparr>name = ''The Farmstead'', unitOid = 12\<rparr>,
      \<lparr>name = ''The Pitchfork'', unitOid = 8\<rparr>,
      \<lparr>name = ''The Skillet'', unitOid = 9\<rparr>,
      \<lparr>name = ''Trinity Cafe'', unitOid = 5\<rparr>,
      \<lparr>name = ''Twinnie'' @ [CHR 0x27] @ ''s'', unitOid = 13\<rparr>,
      \<lparr>name = ''Zweli'' @ [CHR 0x27] @ ''s Caf'' @ [CHR 0xE9] @ '' at Duke Divinity'', unitOid = 28\<rparr>]"

definition MEAL_PERIOD_KEYWORDS :: "string list" where
  "MEAL_PERIOD_KEYWORDS =
     [''Breakfast'', ''Lunch'', ''Dinner'', ''Brunch'', ''All Day'', ''Specialty Drinks'',
      ''Combo Meal Menu'', ''Smoothies'', ''Lunch/Dinner'', ''Lunch and Dinner'',
      ''Lunch & Dinner'', ''Late Night'', ''All Day Service'']"

section \<open>Objects and arrays\<close>

text \<open>\<^verbatim>\<open>xs.join(sep)\<close>.\<close>

fun join :: "string \<Rightarrow> string list \<Rightarrow> string" where
  "join sep [] = []"
| "join sep [x] = x"
| "join sep (x # y # ys) = x @ sep @ join sep (y # ys)"

text \<open>Writing a property: an existing key keeps its place and takes the new value, a new
  key goes to the end.  The spread \<^verbatim>\<open>{...base, ...extra}\<close> writes the properties of
  \<^verbatim>\<open>extra\<close> in their order.\<close>

definition assign :: "jsobj \<Rightarrow> string \<Rightarrow> jsval \<Rightarrow> jsobj" where
  "assign obj k v =
     (if k \<in> set (map fst obj) then map (\<lambda>kv. if fst kv = k then (k, v) else kv) obj
      else obj @ [(k, v)])"

definition spread :: "jsobj \<Rightarrow> jsobj \<Rightarrow> jsobj" where
  "spread base extra = foldl (\<lambda>obj kv. assign obj (fst kv) (snd kv)) base extra"

text \<open>\<^verbatim>\<open>Object.keys(obj)\<close>: the property names that are array indices (the decimal numerals of
  the numbers below \<open>2\<^sup>3\<^sup>2 - 1\<close>, without leading zeros) come first, in ascending numeric
  order, then the other names in the order in which the properties were created.\<close>

definition digits_val :: "string \<Rightarrow> int" where
  "digits_val k = foldl (\<lambda>n c. 10 * n + (of_char c - 48)) 0 k"

definition isArrayIndex :: "string \<Rightarrow> bool" where
  "isArrayIndex k =
     (k \<noteq> [] \<and> list_all is_digit k \<and> (k = ''0'' \<or> hd k \<noteq> CHR ''0'')
      \<and> digits_val k < 4294967295)"

definition objectKeys :: "jsobj \<Rightarrow> string list" where
  "objectKeys obj =
     (let ks = map fst obj
      in sort_key digits_val (filter isArrayIndex ks) @ filter (\<lambda>k. \<not> isArrayIndex k) ks)"

section \<open>Finding elements (lines 179--260)\<close>

definition findRestaurantLink :: "'w dom \<Rightarrow> string \<Rightarrow> ('w, element option) js" where
  "findRestaurantLink d nm =
     andThen (observe (querySelectorAll d Clickables)) (\<lambda>allLinks.
       ret (find (\<lambda>link. trim (textContent link) = nm \<and> visible link) allLinks))"

record period =
  period_name :: string
  period_element :: element

definition isMatch :: "string \<Rightarrow> bool" where
  "isMatch text = list_ex (\<lambda>keyword. text = keyword \<or> includes_str text keyword) MEAL_PERIOD_KEYWORDS"

definition addPeriod :: "period list \<Rightarrow> element \<Rightarrow> period list" where
  \<comment> \<open>the body of the loop of \<^verbatim>\<open>findMealPeriods\<close>\<close>
  "addPeriod periods el =
     (let text = trim (textContent el)
      in if isMatch text \<and> visible el \<and> length text < 100
         then (if \<not> list_ex (\<lambda>p. period_name p = text) periods
               then periods @ [\<lparr>period_name = text, period_element = el\<rparr>]
               else periods)
         else periods)"

definition findMealPeriods :: "'w dom \<Rightarrow> ('w, period list) js" where
  "findMealPeriods d =
     andThen (observe (querySelectorAll d Clickables)) (\<lambda>allElements.
       ret (foldl addPeriod [] allElements))"

definition expandAllCategories :: "'w dom \<Rightarrow> ('w, unit) js" where
  "expandAllCategories d =
     forEach [DetailsClosed, Summary, CategoryClass, DropdownClass] (\<lambda>selector.
       andThen (observe (querySelectorAll d selector)) (\<lambda>elements.
         forEach elements (\<lambda>elem.
           if glyph elem \<or> tagName elem = ''SUMMARY''
           then andThen (act (click d (handle elem))) (\<lambda>_. await d delayAfterExpand)
           else ret ())))"

definition isItemRow :: "row \<Rightarrow> bool" where
  \<comment> \<open>the four \<^verbatim>\<open>continue\<close> tests of \<^verbatim>\<open>findAllItemRows\<close>\<close>
  "isItemRow r =
     (\<not> hasTh r \<and> tds r \<noteq> [] \<and>
      (case itemLink r of
         None \<Rightarrow> False
       | Some hasItemLink \<Rightarrow>
           (let linkText = trim (textContent hasItemLink)
            in \<not> (length linkText < 2 \<or> linkText = ''Back'' \<or> linkText = ''Compare Items''))))"

definition findAllItemRows :: "'w dom \<Rightarrow> ('w, nat list) js" where
  "findAllItemRows d =
     andThen (observe (tableRows d)) (\<lambda>tables.
       ret (map fst (filter (\<lambda>hr. isItemRow (snd hr)) (concat tables))))"

section \<open>Scraping item data (lines 266--346)\<close>

definition getServingSize :: "row \<Rightarrow> string" where
  "getServingSize r =
     (case find (\<lambda>text. js_test re_row_serving text) (map trim (tds r)) of
        Some text \<Rightarrow> text
      | None \<Rightarrow> [])"

definition imageLabel :: "string \<Rightarrow> string option" where
  \<comment> \<open>the \<^verbatim>\<open>if\<close> / \<^verbatim>\<open>else if\<close> chain of lines 322--327\<close>
  "imageLabel alt =
     (if includes_str alt ''vegan'' then Some ''Vegan''
      else if includes_str alt ''vegetarian'' then Some ''Vegetarian''
      else if includes_str alt ''gluten'' then Some ''Gluten Free''
      else if includes_str alt ''dairy'' then Some ''Dairy Free''
      else if includes_str alt ''halal'' then Some ''Halal''
      else if includes_str alt ''kosher'' then Some ''Kosher''
      else None)"

definition imagePass :: "(string \<times> string) list \<Rightarrow> string list" where
  "imagePass images =
     foldl (\<lambda>labels img.
              let alt = toLowerCase (if fst img \<noteq> [] then fst img
                                     else if snd img \<noteq> [] then snd img else [])
              in case imageLabel alt of Some l \<Rightarrow> labels @ [l] | None \<Rightarrow> labels)
           [] images"

definition keywordsTable :: "(string \<times> regex) list" where
  \<comment> \<open>the object \<^verbatim>\<open>keywords\<close> of lines 332--337, in the order of its entries\<close>
  "keywordsTable =
     [(''Vegan'', re_word ''Vegan''), (''Vegetarian'', re_word ''Vegetarian''),
      (''Gluten Free'', re_word ''Gluten Free''), (''Halal'', re_word ''Halal'')]"

definition textPass :: "string \<Rightarrow> string list \<Rightarrow> string list" where
  "textPass text labels0 =
     foldl (\<lambda>labels lr.
              if js_test (snd lr) text \<and> fst lr \<notin> set labels then labels @ [fst lr] else labels)
           labels0 keywordsTable"

definition getDietaryLabels :: "row \<Rightarrow> string" where
  "getDietaryLabels r = join ''; '' (textPass (rowText r) (imagePass (imgs r)))"

section \<open>Nutrition extraction (lines 352--471)\<close>

definition findModal :: "'w dom \<Rightarrow> ('w, element option) js" where
  "findModal d =
     andThen (observe (querySelectorAll d Modals)) (\<lambda>modals.
       case find (\<lambda>m. visible m \<and> includes_str (textContent m) ''Nutrition Information'') modals of
         Some m \<Rightarrow> ret (Some m)
       | None \<Rightarrow>
           andThen (observe (querySelectorAll d DivSection)) (\<lambda>allElements.
             ret (find (\<lambda>el. visible el
                             \<and> includes_str (textContent el) ''Nutrition Information''
                             \<and> includes_str (textContent el) ''Calories'') allElements)))"

definition extractNutritionFromModal :: "'w dom \<Rightarrow> ('w, jsobj) js" where
  "extractNutritionFromModal d =
     andThen (findModal d) (\<lambda>modal.
       case modal of
         None \<Rightarrow> andThen (logTo Log ''Could not find modal'') (\<lambda>_. ret [])
       | Some m \<Rightarrow> (\<lambda>s. (nutrition_of_text (textContent m), s)))"

primrec closeWith :: "'w dom \<Rightarrow> selector list \<Rightarrow> ('w, unit) js" where
  "closeWith d [] = andThen (act (pressEscape d)) (\<lambda>_. await d 300)"
| "closeWith d (selector # rest) =
     andThen (observe (querySelectorAll d selector)) (\<lambda>found.
       case found of
         [] \<Rightarrow> closeWith d rest
       | btn # _ \<Rightarrow>
           if visible btn then andThen (act (click d (handle btn))) (\<lambda>_. await d 300)
           else closeWith d rest)"

definition closeModal :: "'w dom \<Rightarrow> ('w, unit) js" where
  "closeModal d = closeWith d [CloseAria, CloseClass, CloseButton, ModalClose, CloseTitle]"

definition scrapeItemRow :: "'w dom \<Rightarrow> nat \<Rightarrow> string \<Rightarrow> string \<Rightarrow> ('w, jsobj option) js" where
  "scrapeItemRow d r restaurantName mealPeriod =
     andThen (observe (viewRow d r)) (\<lambda>rv.
       let servingSize = getServingSize rv;
           dietaryLabels = getDietaryLabels rv
       in case itemLink rv of
            None \<Rightarrow> andThen (logTo Warn ''No item link found in row'') (\<lambda>_. ret None)
          | Some link \<Rightarrow>
              (let itemName = trim (textContent link)
               in if itemName = [] \<or> length itemName < 2 then ret None
                  else
                    andThen (act (click d (handle link))) (\<lambda>_.
                    andThen (await d delayBetweenClicks) (\<lambda>_.
                    andThen (extractNutritionFromModal d) (\<lambda>nutritionData.
                    andThen (closeModal d) (\<lambda>_.
                      ret (Some (spread
                                   [(''restaurant'', Str restaurantName),
                                    (''meal_period'', Str mealPeriod),
                                    (''item_name'', Str itemName),
                                    (''serving_size'', Str servingSize),
                                    (''dietary_labels'', Str dietaryLabels)]
                                   nutritionData))))))))"

section \<open>CSV export (lines 477--512)\<close>

definition quote :: char where
  "quote = CHR 0x22"

definition csvField :: "jsobj \<Rightarrow> string \<Rightarrow> string" where
  \<comment> \<open>lines 490--492: \<^verbatim>\<open>row[header] || ''\<close>, the double quotes doubled, the whole quoted\<close>
  "csvField r header =
     (let v = (case map_of r header of Some (Str v) \<Rightarrow> v | _ \<Rightarrow> []);
          escaped = concat (map (\<lambda>c. if c = quote then [quote, quote] else [c]) v)
      in [quote] @ escaped @ [quote])"

definition csvContent :: "jsobj \<Rightarrow> jsobj list \<Rightarrow> string" where
  \<comment> \<open>lines 485--497, \<^verbatim>\<open>first\<close> being \<^verbatim>\<open>data[0]\<close>\<close>
  "csvContent first data =
     (let headers = objectKeys first;
          csvRows = join '','' headers # map (\<lambda>r. join '','' (map (csvField r) headers)) data
      in join [CHR 0x0A] csvRows)"

definition downloadCSV :: "jsobj list \<Rightarrow> ('w, unit) js" where
  "downloadCSV data =
     (case data of
        [] \<Rightarrow> logTo Err ''No data to export!''
      | first # _ \<Rightarrow>
          andThen (logTo Log ''Generating CSV...'') (\<lambda>_.
          andThen (\<lambda>s. (Inr (), s\<lparr>downloads := downloads s @ [csvContent first data]\<rparr>)) (\<lambda>_.
            logTo Log ''CSV downloaded successfully!'')))"

section \<open>Main scraping logic (lines 84--173 and 527--535)\<close>

definition pushItem :: "jsobj \<Rightarrow> ('w, unit) js" where
  \<comment> \<open>\<^verbatim>\<open>allData.push(itemData); totalItemsScraped++\<close>\<close>
  "pushItem itemData s =
     (Inr (), s\<lparr>allData := allData s @ [itemData], totalItemsScraped := totalItemsScraped s + 1\<rparr>)"

definition displayName :: "jsobj \<Rightarrow> ('w, string) js" where
  \<comment> \<open>\<^verbatim>\<open>itemData.item_name.substring(0, 45)\<close>\<close>
  "displayName itemData s =
     (case map_of itemData ''item_name'' of
        Some (Str n) \<Rightarrow> (Inr (take 45 n), s)
      | _ \<Rightarrow> (Inl TypeError, s))"

definition itemStep :: "'w dom \<Rightarrow> string \<Rightarrow> string \<Rightarrow> nat \<Rightarrow> ('w, unit) js" where
  \<comment> \<open>the body of the loop of \<^verbatim>\<open>scrapeCurrentPage\<close> (lines 154--167)\<close>
  "itemStep d restaurantName mealPeriod r =
     andThen
       (tryCatch
          (andThen (scrapeItemRow d r restaurantName mealPeriod) (\<lambda>itemData.
             case itemData of
               None \<Rightarrow> ret ()
             | Some item \<Rightarrow>
                 andThen (pushItem item) (\<lambda>_.
                 andThen (displayName item) (\<lambda>n. logTo Log (''item '' @ n)))))
          (\<lambda>error. logTo Warn (''Error on item: '' @ message error)))
       (\<lambda>_. await d delayBetweenClicks)"

definition scrapeCurrentPage :: "'w dom \<Rightarrow> string \<Rightarrow> string \<Rightarrow> ('w, unit) js" where
  "scrapeCurrentPage d restaurantName mealPeriod =
     andThen (expandAllCategories d) (\<lambda>_.
     andThen (findAllItemRows d) (\<lambda>itemRows.
     andThen (logTo Log ''Found items'') (\<lambda>_.
       let maxItems = (if TEST_MODE then min MAX_TEST_ITEMS (length itemRows) else length itemRows)
       in andThen (forEach (take maxItems itemRows) (itemStep d restaurantName mealPeriod)) (\<lambda>_.
            if TEST_MODE then logTo Log ''TEST MODE: stopped'' else ret ()))))"

definition scrapeRestaurant :: "'w dom \<Rightarrow> restaurant \<Rightarrow> ('w, unit) js" where
  "scrapeRestaurant d restaurant =
     andThen (findRestaurantLink d (name restaurant)) (\<lambda>restaurantLink.
       case restaurantLink of
         None \<Rightarrow> logTo Warn (''Could not find link for '' @ name restaurant)
       | Some link \<Rightarrow>
           andThen (act (click d (handle link))) (\<lambda>_.
           andThen (await d delayAfterRestaurant) (\<lambda>_.
           andThen (findMealPeriods d) (\<lambda>mealPeriods.
             if length mealPeriods > 0
             then andThen (logTo Log (''Found meal periods: ''
                                      @ join '', '' (map period_name mealPeriods))) (\<lambda>_.
                    forEach mealPeriods (\<lambda>period.
                      andThen (logTo Log (period_name period)) (\<lambda>_.
                      andThen (act (click d (handle (period_element period)))) (\<lambda>_.
                      andThen (await d delayBetweenClicks) (\<lambda>_.
                        scrapeCurrentPage d (name restaurant) (period_name period))))))
             else andThen (logTo Log ''No meal periods found, scraping all items...'') (\<lambda>_.
                    scrapeCurrentPage d (name restaurant) ''All Day'')))))"

definition restaurantStep :: "'w dom \<Rightarrow> restaurant \<Rightarrow> ('w, unit) js" where
  \<comment> \<open>the body of the loop of \<^verbatim>\<open>scrapeAllRestaurants\<close> (lines 88--99)\<close>
  "restaurantStep d restaurant =
     andThen (logTo Log (name restaurant)) (\<lambda>_.
     andThen (tryCatch (scrapeRestaurant d restaurant)
                (\<lambda>error. logTo Err (''Error scraping '' @ name restaurant @ '': '' @ message error)))
       (\<lambda>_. await d delayAfterRestaurant))"

definition scrapeAllRestaurants :: "'w dom \<Rightarrow> ('w, unit) js" where
  "scrapeAllRestaurants d =
     andThen (logTo Log ''Starting scrape of restaurants...'') (\<lambda>_.
     andThen (forEach RESTAURANTS (restaurantStep d)) (\<lambda>_.
     andThen (logTo Log ''SCRAPING COMPLETE!'') (\<lambda>_.
       (\<lambda>s. downloadCSV (allData s) s))))"

definition main :: "'w dom \<Rightarrow> ('w, unit) js" where
  \<comment> \<open>the callback of \<^verbatim>\<open>setTimeout\<close> (lines 527--535)\<close>
  "main d =
     tryCatch (scrapeAllRestaurants d) (\<lambda>error.
       andThen (logTo Err (''Fatal error: '' @ message error)) (\<lambda>_.
         (\<lambda>s. if length (allData s) > 0
              then andThen (logTo Log ''Saving partial data...'') (\<lambda>_. downloadCSV (allData s)) s
              else ret () s)))"

section \<open>Notions used in the statements\<close>

text \<open>
  The properties below speak about where in a text something occurs.  \<open>istarts s w\<close>: the
  text \<open>s\<close> begins with the word \<open>w\<close> in some letter case; \<open>after_label w s\<close> is what follows
  it.  \<open>starts_in P pre rest\<close>: some suffix of \<open>pre @ rest\<close> that begins inside \<open>pre\<close>
  satisfies \<open>P\<close>; \<open>occurs P s\<close>: some suffix of \<open>s\<close> does.  \<open>prev_after\<close> is the code unit
  before the cursor once \<open>n\<close> code units of \<open>s\<close> have been read.
\<close>

definition prev_after :: "char option \<Rightarrow> string \<Rightarrow> nat \<Rightarrow> char option" where
  "prev_after p s n = (if n = 0 then p else Some (s ! (n - 1)))"

definition istarts :: "string \<Rightarrow> string \<Rightarrow> bool" where
  "istarts s w = (length w \<le> length s \<and> map canonicalize (take (length w) s) = map canonicalize w)"

definition after_label :: "string \<Rightarrow> string \<Rightarrow> string" where
  "after_label w s = drop (length w) s"

definition prev_lit :: "char option \<Rightarrow> string \<Rightarrow> string \<Rightarrow> char option" where
  "prev_lit p s w = prev_after p s (length w)"

definition starts_digit :: "string \<Rightarrow> bool" where
  "starts_digit s = (case s of [] \<Rightarrow> False | c # _ \<Rightarrow> is_digit c)"

definition starts_space :: "string \<Rightarrow> bool" where
  "starts_space s = (case s of [] \<Rightarrow> False | c # _ \<Rightarrow> is_space c)"

fun starts_in :: "(string \<Rightarrow> bool) \<Rightarrow> string \<Rightarrow> string \<Rightarrow> bool" where
  "starts_in P [] rest = False"
| "starts_in P (c # cs) rest = (P (c # cs @ rest) \<or> starts_in P cs rest)"

definition occurs :: "(string \<Rightarrow> bool) \<Rightarrow> string \<Rightarrow> bool" where
  "occurs P s = (starts_in P s [] \<or> P [])"

definition cal_digit :: "string \<Rightarrow> bool" where
  "cal_digit s = (istarts s ''Calories'' \<and> starts_digit (after_label ''Calories'' s))"

definition cal_space_digit :: "string \<Rightarrow> bool" where
  "cal_space_digit s =
     (istarts s ''Calories'' \<and> starts_space (after_label ''Calories'' s)
      \<and> starts_digit (dropWhile is_space (after_label ''Calories'' s)))"

text \<open>The delimiters of the ingredients pattern, in any letter case, and the text up to the
  first place where one of them begins (or the text ends).\<close>

definition delim_at :: "string \<Rightarrow> bool" where
  "delim_at u = (istarts u ''*'' \<or> istarts u ''Contains:'' \<or> istarts u ''Allergen''
                 \<or> istarts u ''Nutrition'' \<or> u = [])"

fun upto_delim :: "string \<Rightarrow> string" where
  "upto_delim [] = []"
| "upto_delim (c # cs) = (if delim_at (c # cs) then [] else c # upto_delim cs)"

text \<open>\<open>binds r\<close>: every match of \<open>r\<close> passes through capture group 1.  The names of the
  fields of a record, and \<open>all_strings\<close>: every property of an object holds a string.\<close>

fun binds :: "regex \<Rightarrow> bool" where
  "binds (Group r) = True"
| "binds (Seq a b) = (binds a \<or> binds b)"
| "binds (Alt a b) = (binds a \<and> binds b)"
| "binds r = False"

definition nutrition_fields :: "string list" where
  "nutrition_fields =
     [''serving_size'', ''calories'', ''total_fat_g'', ''saturated_fat_g'', ''trans_fat_g'',
      ''cholesterol_mg'', ''sodium_mg'', ''total_carbs_g'', ''fiber_g'', ''sugars_g'',
      ''protein_g'', ''ingredients'']"

definition row_fields :: "string list" where
  "row_fields = [''restaurant'', ''meal_period'', ''item_name'', ''serving_size'', ''dietary_labels'']"

definition all_strings :: "jsobj \<Rightarrow> bool" where
  "all_strings obj = list_all (\<lambda>kv. case snd kv of Str _ \<Rightarrow> True | Undefined \<Rightarrow> False) obj"

text \<open>\<open>emits d r rn mp s rec rv modal\<close>: started in state \<open>s\<close>, \<^verbatim>\<open>scrapeItemRow\<close> on the row
  \<open>r\<close> returns the record \<open>rec\<close>, having read the row as \<open>rv\<close>, clicked its link and then looked
  for the modal with the result \<open>modal\<close> (\<open>None\<close>: no modal found).  \<open>field_patterns\<close> lists
  the patterns of each nutrition field.\<close>

definition emits ::
  "'w dom \<Rightarrow> nat \<Rightarrow> string \<Rightarrow> string \<Rightarrow> 'w state \<Rightarrow> jsobj \<Rightarrow> row \<Rightarrow> element option \<Rightarrow> bool" where
  "emits d r rn mp s rec rv modal =
     (\<exists>s' link w.
        scrapeItemRow d r rn mp s = (Inr (Some rec), s')
        \<and> viewRow d r (page s) = Inr rv \<and> itemLink rv = Some link
        \<and> click d (handle link) (page s) = Inr w
        \<and> fst (findModal d (s\<lparr>page := wait d delayBetweenClicks w\<rparr>)) = Inr modal)"

definition field_patterns :: "(string \<times> regex list) list" where
  "field_patterns =
     [(''serving_size'', [re_serving1, re_serving2, re_serving3]),
      (''calories'', [re_calories1, re_calories2, re_calories3, re_calories4]),
      (''total_fat_g'', [re_total_fat]),
      (''saturated_fat_g'', [re_saturated_fat]),
      (''trans_fat_g'', [re_trans_fat]),
      (''cholesterol_mg'', [re_cholesterol]),
      (''sodium_mg'', [re_sodium]),
      (''total_carbs_g'', [re_total_carbs]),
      (''fiber_g'', [re_fiber]),
      (''sugars_g'', [re_sugars]),
      (''protein_g'', [re_protein]),
      (''ingredients'', [re_ingredients])]"

text \<open>\<open>grows P s s'\<close>: from \<open>s\<close> to \<open>s'\<close> the dataset has only been extended, by records that
  satisfy \<open>P\<close>, the counter has grown by their number, and nothing was downloaded.
  \<open>keeps P m\<close>: every run of \<open>m\<close> does that.\<close>

definition grows :: "(jsobj \<Rightarrow> bool) \<Rightarrow> 'w state \<Rightarrow> 'w state \<Rightarrow> bool" where
  "grows P s s' =
     (\<exists>new. allData s' = allData s @ new \<and> list_all P new
            \<and> totalItemsScraped s' = totalItemsScraped s + length new
            \<and> downloads s' = downloads s)"

definition keeps :: "(jsobj \<Rightarrow> bool) \<Rightarrow> ('w, 'a) js \<Rightarrow> bool" where
  "keeps P m = (\<forall>s r s'. m s = (r, s') \<longrightarrow> grows P s s')"

text \<open>\<open>outcomes d rn mp rows s\<close>: what \<^verbatim>\<open>scrapeItemRow\<close> returns for each row in turn when the
  loop of \<^verbatim>\<open>scrapeCurrentPage\<close> runs over \<open>rows\<close> from the state \<open>s\<close>; \<open>successes\<close> keeps the
  records among them.\<close>

definition successes :: "(error + jsobj option) list \<Rightarrow> jsobj list" where
  "successes os = List.map_filter (\<lambda>out. case out of Inr (Some item) \<Rightarrow> Some item | _ \<Rightarrow> None) os"

fun outcomes :: "'w dom \<Rightarrow> string \<Rightarrow> string \<Rightarrow> nat list \<Rightarrow> 'w state \<Rightarrow> (error + jsobj option) list" where
  "outcomes d rn mp [] s = []"
| "outcomes d rn mp (r # rs) s =
     fst (scrapeItemRow d r rn mp s) # outcomes d rn mp rs (snd (itemStep d rn mp r s))"

text \<open>\<open>detectable el\<close>: the three tests that \<^verbatim>\<open>findMealPeriods\<close> applies to a clickable
  element (lines 196--198): its trimmed text equals or contains a keyword, it is visible,
  and the text is shorter than 100 characters.\<close>

definition detectable :: "element \<Rightarrow> bool" where
  "detectable el =
     (isMatch (trim (textContent el)) \<and> visible el \<and> length (trim (textContent el)) < 100)"

text \<open>\<open>harvest d rests s\<close>: for each restaurant in turn, the records that the body of the loop
  of \<^verbatim>\<open>scrapeAllRestaurants\<close> adds to the dataset when the loop runs over \<open>rests\<close> from the
  state \<open>s\<close>.\<close>

fun harvest :: "'w dom \<Rightarrow> restaurant list \<Rightarrow> 'w state \<Rightarrow> jsobj list list" where
  "harvest d [] s = []"
| "harvest d (r # rs) s =
     drop (length (allData s)) (allData (snd (restaurantStep d r s)))
     # harvest d rs (snd (restaurantStep d r s))"


section \<open>An example page\<close>

text \<open>
  A small page on which the functions can be run.  Its state is the handle of the element
  clicked last (0 after Escape).  Four item rows (handles 11 to 14) are listed in one table; clicking the link
  of row 11 or 12 opens a modal, clicking the link of row 14 opens none, and reading row 13
  throws.  The clickable elements are three restaurants; a click on the one with handle 102
  throws, and after a click on the one with handle 101 the clickable elements are meal
  periods.
\<close>

definition demoElement :: "nat \<Rightarrow> string \<Rightarrow> element" where
  "demoElement h t = \<lparr>handle = h, tagName = ''A'', textContent = t, visible = True, glyph = False\<rparr>"

definition demoRow :: "nat \<Rightarrow> row" where
  "demoRow h =
     (if h = 11 then
        \<lparr>hasTh = False, tds = [''Tofu Bowl'', '' 4 oz ''],
         itemLink = Some (demoElement 11 '' Tofu Bowl ''),
         imgs = [(''Vegan option'', [])], rowText = ''Tofu Bowl 4 oz Vegetarian''\<rparr>
      else if h = 12 then
        \<lparr>hasTh = False, tds = [''Cookie'', ''1 each''],
         itemLink = Some (demoElement 12 ''Cookie''),
         imgs = [], rowText = ''Cookie 1 each''\<rparr>
      else
        \<lparr>hasTh = False, tds = [''Pizza'', ''2 slice''],
         itemLink = Some (demoElement h ''Pizza''),
         imgs = [([], ''Halal certified'')], rowText = ''Pizza 2 slice''\<rparr>)"

definition demoModalText :: "nat \<Rightarrow> string" where
  "demoModalText w =
     (if w = 11 then ''Nutrition Information Serving Size 5 oz (142g) Calories250 Protein 12.5g''
      else ''Nutrition Information Calories 160'')"

definition demoClickables :: "nat \<Rightarrow> element list" where
  "demoClickables w =
     (if w = 101
      then [demoElement 110 '' Breakfast '', demoElement 111 ''Breakfast'',
            (demoElement 112 ''Lunch'')\<lparr>visible := False\<rparr>,
            demoElement 113 ''Dinner Specials'', demoElement 114 ''About'']
      else [demoElement 100 ''Bella Union'', demoElement 102 ''Bseisu Coffee Bar'',
            demoElement 101 ''Cafe''])"

definition demoPage :: "nat dom" where
  "demoPage =
     \<lparr>querySelectorAll = (\<lambda>sel w. case sel of
          Clickables \<Rightarrow> Inr (demoClickables w)
        | Modals \<Rightarrow> Inr (if w = 11 \<or> w = 12 then [demoElement 200 (demoModalText w)] else [])
        | _ \<Rightarrow> Inr []),
      tableRows = (\<lambda>w. Inr [[(11, demoRow 11), (12, demoRow 12), (13, demoRow 13), (14, demoRow 14)]]),
      viewRow = (\<lambda>h w. if h = 13 then Inl (Thrown ''stale row'') else Inr (demoRow h)),
      click = (\<lambda>h w. if h = 102 then Inl (Thrown ''element is detached'') else Inr h),
      pressEscape = (\<lambda>w. Inr 0),
      wait = (\<lambda>ms w. w)\<rparr>"

definition demoStart :: "nat state" where
  "demoStart = \<lparr>page = 0, allData = [], totalItemsScraped = 0, console = [], downloads = []\<rparr>"

text \<open>The records that the rows 11, 12 and 14 of the example page give.\<close>

definition demoRecord1 :: "string \<Rightarrow> string \<Rightarrow> jsobj" where
  "demoRecord1 rn mp =
     [(''restaurant'', Str rn), (''meal_period'', Str mp),
      (''item_name'', Str ''Tofu Bowl''), (''serving_size'', Str ''5 oz (142g)''),
      (''dietary_labels'', Str ''Vegan; Vegetarian''), (''calories'', Str ''250''),
      (''total_fat_g'', Str []), (''saturated_fat_g'', Str []), (''trans_fat_g'', Str []),
      (''cholesterol_mg'', Str []), (''sodium_mg'', Str []), (''total_carbs_g'', Str []),
      (''fiber_g'', Str []), (''sugars_g'', Str []), (''protein_g'', Str ''12.5''),
      (''ingredients'', Str [])]"

definition demoRecord2 :: "string \<Rightarrow> string \<Rightarrow> jsobj" where
  "demoRecord2 rn mp =
     [(''restaurant'', Str rn), (''meal_period'', Str mp),
      (''item_name'', Str ''Cookie''), (''serving_size'', Str []),
      (''dietary_labels'', Str []), (''calories'', Str ''160''),
      (''total_fat_g'', Str []), (''saturated_fat_g'', Str []), (''trans_fat_g'', Str []),
      (''cholesterol_mg'', Str []), (''sodium_mg'', Str []), (''total_carbs_g'', Str []),
      (''fiber_g'', Str []), (''sugars_g'', Str []), (''protein_g'', Str []),
      (''ingredients'', Str [])]"

definition demoRecord4 :: "string \<Rightarrow> string \<Rightarrow> jsobj" where
  "demoRecord4 rn mp =
     [(''restaurant'', Str rn), (''meal_period'', Str mp),
      (''item_name'', Str ''Pizza''), (''serving_size'', Str ''2 slice''),
      (''dietary_labels'', Str ''Halal'')]"

section \<open>Reading CSV\<close>

text \<open>
  The round trip of the export is stated against a reader of CSV in the sense of RFC 4180.
  The reader is not part of the script.  It reads the text character by character:
  fields are separated by commas and records by line feeds or carriage returns, empty
  lines are skipped, a field that starts with a double quote runs to the closing double
  quote, inside which two double quotes stand for one and commas and line breaks are
  data.  A double quote inside an unquoted field, a character other than a separator
  after a closing quote, and an unclosed quote are errors.
\<close>

datatype mode = RowStart | FieldStart | Unquoted | Quoted | QuoteSeen

record reader =
  rd_mode :: mode
  rd_cur :: string
  rd_row :: "string list"
  rd_done :: "string list list"

definition comma :: char where
  "comma = CHR '',''"

definition is_newline :: "char \<Rightarrow> bool" where
  "is_newline c = (c = CHR 0x0A \<or> c = CHR 0x0D)"

definition endField :: "reader \<Rightarrow> reader" where
  "endField st = st\<lparr>rd_mode := FieldStart, rd_cur := [], rd_row := rd_row st @ [rd_cur st]\<rparr>"

definition closed :: "reader \<Rightarrow> string list list" where
  "closed st = rd_done st @ [rd_row st @ [rd_cur st]]"

definition endRow :: "reader \<Rightarrow> reader" where
  "endRow st = \<lparr>rd_mode = RowStart, rd_cur = [], rd_row = [], rd_done = closed st\<rparr>"

definition put :: "char \<Rightarrow> reader \<Rightarrow> reader" where
  "put c st = st\<lparr>rd_cur := rd_cur st @ [c]\<rparr>"

definition step :: "reader \<Rightarrow> char \<Rightarrow> reader option" where
  "step st c =
     (case rd_mode st of
        RowStart \<Rightarrow>
          if c = quote then Some (st\<lparr>rd_mode := Quoted\<rparr>)
          else if c = comma then Some (endField st)
          else if is_newline c then Some st
          else Some (put c (st\<lparr>rd_mode := Unquoted\<rparr>))
      | FieldStart \<Rightarrow>
          if c = quote then Some (st\<lparr>rd_mode := Quoted\<rparr>)
          else if c = comma then Some (endField st)
          else if is_newline c then Some (endRow st)
          else Some (put c (st\<lparr>rd_mode := Unquoted\<rparr>))
      | Unquoted \<Rightarrow>
          if c = quote then None
          else if c = comma then Some (endField st)
          else if is_newline c then Some (endRow st)
          else Some (put c st)
      | Quoted \<Rightarrow>
          if c = quote then Some (st\<lparr>rd_mode := QuoteSeen\<rparr>)
          else Some (put c st)
      | QuoteSeen \<Rightarrow>
          if c = quote then Some (put c (st\<lparr>rd_mode := Quoted\<rparr>))
          else if c = comma then Some (endField st)
          else if is_newline c then Some (endRow st)
          else None)"

fun run :: "reader \<Rightarrow> string \<Rightarrow> reader option" where
  "run st [] = Some st"
| "run st (c # cs) = (case step st c of None \<Rightarrow> None | Some st' \<Rightarrow> run st' cs)"








section \<open>Facts about the matcher\<close>

lemma istarts_Nil [simp]: "istarts s []"
  by (simp add: istarts_def)

lemma istarts_Cons:
  "istarts s (c # w) = (case s of [] \<Rightarrow> False | x # xs \<Rightarrow> ieq c x \<and> istarts xs w)"
  by (cases s) (auto simp: istarts_def ieq_def)

lemma prev_after_Suc: "prev_after p (x # xs) (Suc n) = prev_after (Some x) xs n"
  by (cases n) (simp_all add: prev_after_def)

lemma prev_after_0 [simp]: "prev_after p s 0 = p"
  by (simp add: prev_after_def)

lemma lit_Nil: "lit [] = Eps"
  by (simp add: lit_def)

lemma lit_Cons: "lit (c # w) = Seq (Atom (ieq c)) (lit w)"
  by (simp add: lit_def)

lemma rmatch_lit:
  "rmatch (lit w) (p, s, k) =
     (if istarts s w then [(prev_lit p s w, after_label w s, k)] else [])"
  unfolding prev_lit_def after_label_def
proof (induction w arbitrary: p s)
  case Nil
  show ?case by (simp add: lit_Nil)
next
  case (Cons c w)
  show ?case
  proof (cases s)
    case Nil
    then show ?thesis by (simp add: istarts_Cons lit_Cons)
  next
    case (Cons x xs)
    then show ?thesis
      using Cons.IH [of "Some x" xs] by (simp add: istarts_Cons prev_after_Suc lit_Cons)
  qed
qed

lemma rmatch_star_atom:
  "rmatch (Star (Atom P)) (p, s, k) =
     map (\<lambda>j. (prev_after p s j, drop j s, k)) (rev [0..<Suc (length (takeWhile P s))])"
proof (induction s arbitrary: p)
  case Nil
  show ?case by simp
next
  case (Cons x xs)
  show ?case
  proof (cases "P x")
    case True
    have "[0..<Suc (Suc (length (takeWhile P xs)))]
          = 0 # map Suc [0..<Suc (length (takeWhile P xs))]"
      by (metis map_Suc_upt upt_conv_Cons zero_less_Suc)
    then have "rev [0..<Suc (Suc (length (takeWhile P xs)))]
          = map Suc (rev [0..<Suc (length (takeWhile P xs))]) @ [0]"
      by (simp only: rev.simps rev_map)
    with True Cons.IH [of "Some x"] show ?thesis
      by (simp add: prev_after_Suc comp_def del: upt_Suc)
  next
    case False
    then show ?thesis by simp
  qed
qed

lemma rmatch_seq_Eps [simp]: "rmatch (Seq r Eps) st = rmatch r st"
  by (simp add: comp_def) (induction "rmatch r st", simp_all)

lemma concat_map_Eps [simp]: "concat (map (rmatch Eps \<circ> f) xs) = map f xs"
  by (induction xs) simp_all

lemma rmatch_seq_seq_Eps [simp]: "rmatch (Seq a (Seq b Eps)) st = rmatch (Seq a b) st"
proof -
  have "rmatch (Seq b Eps) = rmatch b" by (rule ext) (rule rmatch_seq_Eps)
  then show ?thesis by (simp only: rmatch.simps(3))
qed

lemma rev_upt_Suc_from: "lo \<le> n \<Longrightarrow> rev [lo..<Suc n] = n # rev [lo..<n]"
  by simp

lemma rmatch_plus_atom:
  "rmatch (Plus (Atom P)) (p, s, k) =
     map (\<lambda>j. (prev_after p s j, drop j s, k)) (rev [1..<Suc (length (takeWhile P s))])"
proof (cases s)
  case Nil
  then show ?thesis by simp
next
  case (Cons x xs)
  show ?thesis
  proof (cases "P x")
    case True
    have "[1..<Suc (Suc (length (takeWhile P xs)))] = map Suc [0..<Suc (length (takeWhile P xs))]"
      by (metis One_nat_def map_Suc_upt)
    then have "rev [1..<Suc (Suc (length (takeWhile P xs)))]
               = map Suc (rev [0..<Suc (length (takeWhile P xs))])"
      by (simp only: rev_map)
    with True Cons show ?thesis
      by (simp add: rmatch_star_atom prev_after_Suc comp_def del: upt_Suc rmatch.simps(5))
  next
    case False
    with Cons show ?thesis by simp
  qed
qed

lemma concat_commit:
  assumes "\<And>j. lo \<le> j \<Longrightarrow> j < n \<Longrightarrow> f (g j) = []"
  shows "concat (map f (map g (rev [lo..<Suc n]))) = (if lo \<le> n then f (g n) else [])"
proof (cases "lo \<le> n")
  case True
  have "concat (map f (map g (rev [lo..<n]))) = []"
    using assms by (auto simp: concat_eq_Nil_conv)
  with True show ?thesis by (simp del: upt_Suc add: rev_upt_Suc_from)
next
  case False
  then show ?thesis by simp
qed

lemma case_list_hd: "(case xs of [] \<Rightarrow> a | x # _ \<Rightarrow> f x) = (if xs = [] then a else f (hd xs))"
  by (cases xs) simp_all

lemma rsearch_unfold:
  "rsearch r p s =
     (if rmatch r (p, s, None) \<noteq> [] then Some (snd (snd (hd (rmatch r (p, s, None)))))
      else (case s of [] \<Rightarrow> None | c # cs \<Rightarrow> rsearch r (Some c) cs))"
  by (cases s) (simp_all add: case_list_hd)

lemma rsearch_None:
  "(\<And>p' n. rmatch r (p', drop n s, None) = []) \<Longrightarrow> rsearch r p s = None"
proof (induction s arbitrary: p)
  case Nil
  from Nil [of p 0] show ?case by simp
next
  case (Cons c cs)
  have "rmatch r (p, c # cs, None) = []" using Cons.prems [of p 0] by simp
  moreover have "rsearch r (Some c) cs = None"
    using Cons.prems [of _ "Suc n" for n] by (intro Cons.IH) simp
  ultimately show ?case by simp
qed

lemma rsearch_skip:
  "(\<And>p'. \<not> starts_in (\<lambda>t. rmatch r (p', t, None) \<noteq> []) pre s)
   \<Longrightarrow> rsearch r p (pre @ s) = rsearch r (prev_after p pre (length pre)) s"
proof (induction pre arbitrary: p)
  case Nil
  show ?case by simp
next
  case (Cons c cs)
  have "rmatch r (p, c # cs @ s, None) = []" using Cons.prems [of p] by simp
  moreover have "rsearch r (Some c) (cs @ s) = rsearch r (prev_after (Some c) cs (length cs)) s"
    using Cons.prems by (intro Cons.IH) simp
  ultimately show ?case by (simp add: prev_after_Suc)
qed

lemma starts_in_mono:
  "(\<And>t. P t \<Longrightarrow> Q t) \<Longrightarrow> starts_in P pre s \<Longrightarrow> starts_in Q pre s"
  by (induction pre) auto

lemma rmatch_group_plus_atom:
  "rmatch (Group (Plus (Atom P))) (p, s, k) =
     map (\<lambda>j. (prev_after p s j, drop j s, Some (take j s))) (rev [1..<Suc (length (takeWhile P s))])"
proof -
  have "j \<le> length (takeWhile P s) \<Longrightarrow> length s - (length s - j) = j" for j
    using length_takeWhile_le [of P s] by simp
  then show ?thesis
    by (simp only: rmatch.simps(7) rmatch_plus_atom) (simp del: upt_Suc)
qed

lemma run_pos: "0 < length (takeWhile P s) \<longleftrightarrow> (case s of [] \<Rightarrow> False | c # _ \<Rightarrow> P c)"
  by (cases s) simp_all

lemma take_run: "take (length (takeWhile P s)) s = takeWhile P s"
  by (induction s) simp_all

lemma drop_run: "drop (length (takeWhile P s)) s = dropWhile P s"
  by (induction s) simp_all

text \<open>The first two calorie patterns at one start position.\<close>

lemma cal1_at:
  "rmatch re_calories1 (p, s, None) =
     (if istarts s ''Calories''
      then map (\<lambda>j. (prev_after (prev_lit p s ''Calories'') (after_label ''Calories'' s) j,
                     drop j (after_label ''Calories'' s),
                     Some (take j (after_label ''Calories'' s))))
               (rev [1..<Suc (length (takeWhile is_digit (after_label ''Calories'' s)))])
      else [])"
  by (simp add: re_calories1_def seqs_def rmatch_lit rmatch_group_plus_atom
           del: rmatch.simps(5,6,7) upt_Suc)

lemma cal1_empty: "rmatch re_calories1 (p, s, None) = [] \<longleftrightarrow> \<not> cal_digit s"
  by (cases "after_label ''Calories'' s")
     (auto simp: cal1_at cal_digit_def starts_digit_def simp del: upt_Suc)

lemma cal1_hd:
  assumes "cal_digit s"
  shows "snd (snd (hd (rmatch re_calories1 (p, s, None))))
         = Some (takeWhile is_digit (after_label ''Calories'' s))"
proof -
  have "1 \<le> length (takeWhile is_digit (after_label ''Calories'' s))"
    using assms by (cases "after_label ''Calories'' s") (simp_all add: cal_digit_def starts_digit_def)
  with assms show ?thesis
    by (simp add: cal1_at cal_digit_def rev_upt_Suc_from take_run del: upt_Suc)
qed

lemma drop_in_run:
  "j < length (takeWhile P s) \<Longrightarrow> \<exists>c t. drop j s = c # t \<and> P c"
proof (induction s arbitrary: j)
  case Nil
  then show ?case by simp
next
  case (Cons x xs)
  then show ?case by (cases j) (auto split: if_splits)
qed

lemma group_plus_empty:
  "rmatch (Group (Plus (Atom Q))) (p, s, k) = [] \<longleftrightarrow> (case s of [] \<Rightarrow> True | c # _ \<Rightarrow> \<not> Q c)"
  by (cases s) (simp_all add: rmatch_group_plus_atom del: rmatch.simps upt_Suc)

lemma plus_then_group:
  assumes "\<And>c. P c \<Longrightarrow> \<not> Q c"
  shows "rmatch (Seq (Plus (Atom P)) (Group (Plus (Atom Q)))) (p, s, k) =
           (if 1 \<le> length (takeWhile P s)
            then rmatch (Group (Plus (Atom Q))) (prev_after p s (length (takeWhile P s)), dropWhile P s, k)
            else [])"
proof -
  have "rmatch (Group (Plus (Atom Q))) (prev_after p s j, drop j s, k) = []"
    if "j < length (takeWhile P s)" for j
    using drop_in_run [OF that] assms by (auto simp: group_plus_empty simp del: rmatch.simps)
  then have "concat (map (rmatch (Group (Plus (Atom Q))))
                      (map (\<lambda>j. (prev_after p s j, drop j s, k)) (rev [1..<Suc (length (takeWhile P s))])))
             = (if 1 \<le> length (takeWhile P s)
                then rmatch (Group (Plus (Atom Q))) (prev_after p s (length (takeWhile P s)),
                                                     drop (length (takeWhile P s)) s, k)
                else [])"
    by (intro concat_commit) simp
  then show ?thesis
    by (simp only: rmatch.simps(3) [of "Plus (Atom P)"] rmatch_plus_atom drop_run)
qed

lemma space_not_digit: "is_space c \<Longrightarrow> \<not> is_digit c"
  by (auto simp: is_space_def is_digit_def)

lemma cal2_at:
  "rmatch re_calories2 (p, s, None) =
     (if istarts s ''Calories'' \<and> starts_space (after_label ''Calories'' s)
      then rmatch (Group (Plus dg))
             (prev_after (prev_lit p s ''Calories'') (after_label ''Calories'' s)
                (length (takeWhile is_space (after_label ''Calories'' s))),
              dropWhile is_space (after_label ''Calories'' s), None)
      else [])"
proof -
  have "(1 \<le> length (takeWhile is_space t)) = starts_space t" for t
    by (cases t) (simp_all add: starts_space_def)
  then show ?thesis
    by (simp add: re_calories2_def seqs_def rmatch_lit rmatch.simps(3) [of "lit w" for w]
                  plus_then_group [of is_space is_digit, OF space_not_digit]
             del: rmatch.simps upt_Suc)
qed

lemma group_plus_dg_empty:
  "rmatch (Group (Plus dg)) (p, s, k) = [] \<longleftrightarrow> \<not> starts_digit s"
  by (cases s) (simp_all add: group_plus_empty starts_digit_def del: rmatch.simps)

lemma cal2_empty: "rmatch re_calories2 (p, s, None) = [] \<longleftrightarrow> \<not> cal_space_digit s"
  by (auto simp: cal2_at cal_space_digit_def group_plus_dg_empty simp del: rmatch.simps)

lemma cal2_hd:
  assumes "cal_space_digit s"
  shows "snd (snd (hd (rmatch re_calories2 (p, s, None))))
         = Some (takeWhile is_digit (dropWhile is_space (after_label ''Calories'' s)))"
proof -
  let ?t = "dropWhile is_space (after_label ''Calories'' s)"
  have "1 \<le> length (takeWhile is_digit ?t)"
    using assms by (cases ?t) (simp_all add: cal_space_digit_def starts_digit_def)
  with assms show ?thesis
    by (simp add: cal2_at cal_space_digit_def rmatch_group_plus_atom rev_upt_Suc_from take_run
             del: upt_Suc rmatch.simps)
qed

lemma seqs_simps: "seqs [] = Eps" "seqs (r # rs) = Seq r (seqs rs)"
  by (simp_all add: seqs_def)

lemma rmatch_suffix:
  "st' \<in> set (rmatch r st) \<Longrightarrow> \<exists>n. fst (snd st') = drop n (fst (snd st))"
proof (induction r st arbitrary: st' rule: rmatch.induct)
  case (1 P p s k)
  then show ?case
    by (cases s) (auto split: if_splits intro: exI [of _ 1])
next
  case (2 st)
  then show ?case by (auto intro: exI [of _ 0])
next
  case (3 a b st)
  from "3.prems" obtain x where x: "x \<in> set (rmatch a st)" "st' \<in> set (rmatch b x)"
    by auto
  from "3.IH"(1) [OF x(1)] obtain n where "fst (snd x) = drop n (fst (snd st))" ..
  moreover from "3.IH"(2) [OF x] obtain m where "fst (snd st') = drop m (fst (snd x))" ..
  ultimately have "fst (snd st') = drop (m + n) (fst (snd st))" by simp
  then show ?case ..
next
  case (4 a b st)
  from "4.prems" have "st' \<in> set (rmatch a st) \<or> st' \<in> set (rmatch b st)" by simp
  then show ?case using "4.IH" by blast
next
  case (5 a p s k)
  show ?case
  proof (cases "st' = (p, s, k)")
    case True
    then show ?thesis by (auto intro: exI [of _ 0])
  next
    case False
    with "5.prems" obtain x where x: "x \<in> set (rmatch a (p, s, k))"
      "length (fst (snd x)) < length s" "st' \<in> set (rmatch (Star a) x)"
      by (auto split: if_splits)
    from "5.IH"(1) [OF x(1)] obtain n where "fst (snd x) = drop n s" by auto
    moreover from "5.IH"(2) [OF x] obtain m where "fst (snd st') = drop m (fst (snd x))" ..
    ultimately have "fst (snd st') = drop (m + n) (fst (snd (p, s, k)))" by simp
    then show ?thesis ..
  qed
next
  case (6 a p s k)
  show ?case
  proof (cases "st' = (p, s, k)")
    case True
    then show ?thesis by (auto intro: exI [of _ 0])
  next
    case False
    with "6.prems" obtain x where x: "x \<in> set (rmatch a (p, s, k))"
      "length (fst (snd x)) < length s" "st' \<in> set (rmatch (LazyStar a) x)"
      by (auto split: if_splits)
    from "6.IH"(1) [OF x(1)] obtain n where "fst (snd x) = drop n s" by auto
    moreover from "6.IH"(2) [OF x] obtain m where "fst (snd st') = drop m (fst (snd x))" ..
    ultimately have "fst (snd st') = drop (m + n) (fst (snd (p, s, k)))" by simp
    then show ?thesis ..
  qed
next
  case (7 a p s k)
  then show ?case by auto
next
  case (8 a p s k)
  then show ?case by (auto split: list.splits intro: exI [of _ 0])
next
  case (9 p s k)
  then show ?case by (auto split: if_splits intro: exI [of _ 0])
next
  case (10 p s k)
  then show ?case by (auto split: if_splits intro: exI [of _ 0])
qed

lemma seq_fail:
  assumes "\<And>p' n k'. rmatch b (p', drop n s, k') = []"
  shows "rmatch (Seq a b) (p, s, k) = []"
proof -
  have "rmatch b x = []" if "x \<in> set (rmatch a (p, s, k))" for x
  proof -
    from rmatch_suffix [OF that] obtain n where "fst (snd x) = drop n s" by auto
    then have "x = (fst x, drop n s, snd (snd x))" by (metis prod.collapse)
    then show ?thesis using assms [of "fst x" n "snd (snd x)"] by simp
  qed
  then show ?thesis by (simp add: concat_eq_Nil_conv)
qed

lemma lit_seq_fail: "\<not> istarts s w \<Longrightarrow> rmatch (Seq (lit w) r) (p, s, k) = []"
  by (simp add: rmatch_lit)

lemma occurs_iff: "occurs P s \<longleftrightarrow> (\<exists>n. P (drop n s))"
proof -
  have "starts_in P pre rest \<longleftrightarrow> (\<exists>n < length pre. P (drop n pre @ rest))" for pre rest
  proof (induction pre)
    case Nil
    show ?case by simp
  next
    case (Cons c cs)
    show ?case
    proof
      assume "starts_in P (c # cs) rest"
      then consider "P (c # cs @ rest)" | "starts_in P cs rest" by auto
      then show "\<exists>n<length (c # cs). P (drop n (c # cs) @ rest)"
      proof cases
        case 1
        then show ?thesis by (intro exI [of _ 0]) simp
      next
        case 2
        with Cons.IH obtain n where "n < length cs" "P (drop n cs @ rest)" by auto
        then show ?thesis by (intro exI [of _ "Suc n"]) simp
      qed
    next
      assume "\<exists>n<length (c # cs). P (drop n (c # cs) @ rest)"
      then obtain n where n: "n < length (c # cs)" "P (drop n (c # cs) @ rest)" by auto
      show "starts_in P (c # cs) rest"
      proof (cases n)
        case 0
        with n show ?thesis by simp
      next
        case (Suc m)
        with n Cons.IH show ?thesis by auto
      qed
    qed
  qed
  from this [of s "[]"] show ?thesis
    unfolding occurs_def
    by (metis append_Nil2 drop_all le_eq_less_or_eq linorder_le_less_linear)
qed

lemma js_match_None:
  "(\<And>p n. rmatch r (p, drop n text, None) = []) \<Longrightarrow> js_match text r = None"
  unfolding js_match_def by (rule rsearch_None)

lemma js_match_found:
  assumes "\<And>p. \<not> starts_in (\<lambda>t. rmatch r (p, t, None) \<noteq> []) pre s"
    and "\<And>p. rmatch r (p, s, None) \<noteq> []"
    and "\<And>p. snd (snd (hd (rmatch r (p, s, None)))) = c"
  shows "js_match (pre @ s) r = Some c"
proof -
  have "rsearch r None (pre @ s) = rsearch r (prev_after None pre (length pre)) s"
    using assms(1) by (rule rsearch_skip)
  also have "\<dots> = Some c"
    using assms(2,3) by (subst rsearch_unfold) simp
  finally show ?thesis by (simp add: js_match_def)
qed

lemma trim_digits: "\<forall>c\<in>set s. is_digit c \<Longrightarrow> trim s = s"
proof -
  assume a: "\<forall>c\<in>set s. is_digit c"
  then have "\<forall>c\<in>set s. \<not> is_space c" using space_not_digit by blast
  then have 1: "dropWhile is_space s = s" by (cases s) auto
  from a have "\<forall>c\<in>set (rev s). \<not> is_space c" using space_not_digit by auto
  then have "dropWhile is_space (rev s) = rev s" by (cases "rev s") auto
  with 1 show ?thesis by (simp add: trim_def)
qed

lemma takeWhile_digits_append:
  "\<forall>c\<in>set ds. is_digit c \<Longrightarrow> \<not> starts_digit post \<Longrightarrow> takeWhile is_digit (ds @ post) = ds"
  by (cases post) (simp_all add: starts_digit_def takeWhile_append2)

lemma extractMatch_cal1_None: "\<not> occurs cal_digit text \<Longrightarrow> extractMatch text re_calories1 = Inr []"
  by (simp add: extractMatch_def js_match_None cal1_empty occurs_iff)

lemma extractMatch_cal1_found:
  assumes "\<not> starts_in cal_digit pre s" and "cal_digit s"
  shows "extractMatch (pre @ s) re_calories1
         = Inr (trim (takeWhile is_digit (after_label ''Calories'' s)))"
proof -
  have "js_match (pre @ s) re_calories1 = Some (Some (takeWhile is_digit (after_label ''Calories'' s)))"
  proof (rule js_match_found)
    fix p
    show "\<not> starts_in (\<lambda>t. rmatch re_calories1 (p, t, None) \<noteq> []) pre s"
      using assms(1) starts_in_mono [of "\<lambda>t. rmatch re_calories1 (p, t, None) \<noteq> []" cal_digit pre s]
      by (auto simp: cal1_empty)
    show "rmatch re_calories1 (p, s, None) \<noteq> []" using assms(2) by (simp add: cal1_empty)
    show "snd (snd (hd (rmatch re_calories1 (p, s, None))))
          = Some (takeWhile is_digit (after_label ''Calories'' s))"
      using assms(2) by (rule cal1_hd)
  qed
  then show ?thesis by (simp add: extractMatch_def)
qed

lemma extractMatch_cal2_found:
  assumes "\<not> starts_in cal_space_digit pre s" and "cal_space_digit s"
  shows "extractMatch (pre @ s) re_calories2
         = Inr (trim (takeWhile is_digit (dropWhile is_space (after_label ''Calories'' s))))"
proof -
  have "js_match (pre @ s) re_calories2
        = Some (Some (takeWhile is_digit (dropWhile is_space (after_label ''Calories'' s))))"
  proof (rule js_match_found)
    fix p
    show "\<not> starts_in (\<lambda>t. rmatch re_calories2 (p, t, None) \<noteq> []) pre s"
      using assms(1) starts_in_mono [of "\<lambda>t. rmatch re_calories2 (p, t, None) \<noteq> []" cal_space_digit pre s]
      by (auto simp: cal2_empty)
    show "rmatch re_calories2 (p, s, None) \<noteq> []" using assms(2) by (simp add: cal2_empty)
    show "snd (snd (hd (rmatch re_calories2 (p, s, None))))
          = Some (takeWhile is_digit (dropWhile is_space (after_label ''Calories'' s)))"
      using assms(2) by (rule cal2_hd)
  qed
  then show ?thesis by (simp add: extractMatch_def)
qed

lemma no_calories_all_fail:
  assumes "\<not> occurs (\<lambda>s. istarts s ''Calories'') text"
  shows "js_match text re_calories1 = None" "js_match text re_calories2 = None"
    "js_match text re_calories3 = None" "js_match text re_calories4 = None"
proof -
  have no: "\<not> istarts (drop n text) ''Calories''" for n
    using assms by (auto simp: occurs_iff)
  show "js_match text re_calories1 = None"
    by (rule js_match_None) (simp add: cal1_empty cal_digit_def no)
  show "js_match text re_calories2 = None"
    by (rule js_match_None) (simp add: cal2_empty cal_space_digit_def no)
  show "js_match text re_calories4 = None"
    by (rule js_match_None) (simp add: re_calories4_def seqs_def lit_seq_fail no del: rmatch.simps)
  show "js_match text re_calories3 = None"
  proof (rule js_match_None)
    fix p n
    have H: "rmatch (Seq (lit ''Calories'') r) (p', drop m (drop n' (drop n text)), k') = []"
      for r p' m n' k'
      using no [of "m + (n' + n)"] by (intro lit_seq_fail) (simp add: add.commute)
    show "rmatch re_calories3 (p, drop n text, None) = []"
      unfolding re_calories3_def seqs_simps
      by (rule seq_fail, rule seq_fail, rule H)
  qed
qed

text \<open>The ingredients pattern.\<close>

lemma rmatch_lazy_any:
  "rmatch (LazyStar (Atom (\<lambda>c. True))) (p, t, k) =
     map (\<lambda>i. (prev_after p t i, drop i t, k)) [0..<Suc (length t)]"
proof (induction t arbitrary: p)
  case Nil
  show ?case by simp
next
  case (Cons x xs)
  have "[0..<Suc (Suc (length xs))] = 0 # map Suc [0..<Suc (length xs)]"
    by (metis map_Suc_upt upt_conv_Cons zero_less_Suc)
  with Cons.IH [of "Some x"] show ?case
    by (simp add: prev_after_Suc comp_def del: upt_Suc)
qed

lemma rmatch_group_lazy_any:
  "rmatch (Group (LazyStar (Atom (\<lambda>c. True)))) (p, t, k) =
     map (\<lambda>i. (prev_after p t i, drop i t, Some (take i t))) [0..<Suc (length t)]"
  by (simp only: rmatch.simps(7) rmatch_lazy_any) (simp del: upt_Suc)

lemma rmatch_look_delim:
  "rmatch (Look (Alt (lit ''*'') (Alt (lit ''Contains:'') (Alt (lit ''Allergen'') (Alt (lit ''Nutrition'') Eos))))) (q, u, k)
   = (if delim_at u then [(q, u, k)] else [])"
  by (simp add: rmatch_lit delim_at_def del: rmatch.simps(1,3,5,6,7))

lemma first_hit:
  assumes "\<And>i. i < i0 \<Longrightarrow> g i = []" and "g i0 \<noteq> []" and "i0 < n"
  shows "concat (map g [0..<n]) \<noteq> [] \<and> hd (concat (map g [0..<n])) = hd (g i0)"
proof -
  have "[0..<n] = [0..<i0] @ i0 # [Suc i0..<n]"
    using assms(3) by (metis le0 le_add_diff_inverse less_imp_le_nat upt_add_eq_append upt_conv_Cons)
  then have "concat (map g [0..<n])
             = concat (map g [0..<i0]) @ g i0 @ concat (map g [Suc i0..<n])"
    by simp
  moreover have "concat (map g [0..<i0]) = []"
    using assms(1) by (simp add: concat_eq_Nil_conv)
  ultimately have "concat (map g [0..<n]) = g i0 @ concat (map g [Suc i0..<n])"
    by simp
  then show ?thesis using assms(2) by simp
qed

lemma upto_delim_props:
  "length (upto_delim t) \<le> length t"
  "delim_at (drop (length (upto_delim t)) t)"
  "i < length (upto_delim t) \<Longrightarrow> \<not> delim_at (drop i t)"
  "take (length (upto_delim t)) t = upto_delim t"
proof -
  show "length (upto_delim t) \<le> length t" by (induction t) auto
  show "delim_at (drop (length (upto_delim t)) t)"
    by (induction t) (auto simp: delim_at_def)
  show "i < length (upto_delim t) \<Longrightarrow> \<not> delim_at (drop i t)"
  proof (induction t arbitrary: i)
    case Nil
    then show ?case by simp
  next
    case (Cons c cs)
    then show ?case by (cases i) (auto split: if_splits)
  qed
  show "take (length (upto_delim t)) t = upto_delim t" by (induction t) auto
qed

lemma ingr_tail:
  "rmatch (Seq (Group (LazyStar (Atom (\<lambda>c. True))))
               (Look (Alt (lit ''*'') (Alt (lit ''Contains:'') (Alt (lit ''Allergen'') (Alt (lit ''Nutrition'') Eos))))))
          (p, t, k) \<noteq> []
   \<and> snd (snd (hd (rmatch (Seq (Group (LazyStar (Atom (\<lambda>c. True))))
               (Look (Alt (lit ''*'') (Alt (lit ''Contains:'') (Alt (lit ''Allergen'') (Alt (lit ''Nutrition'') Eos))))))
          (p, t, k)))) = Some (upto_delim t)"
proof -
  let ?g = "\<lambda>i. if delim_at (drop i t) then [(prev_after p t i, drop i t, Some (take i t))] else []"
  let ?i0 = "length (upto_delim t)"
  have eq: "rmatch (Seq (Group (LazyStar (Atom (\<lambda>c. True))))
               (Look (Alt (lit ''*'') (Alt (lit ''Contains:'') (Alt (lit ''Allergen'') (Alt (lit ''Nutrition'') Eos))))))
          (p, t, k) = concat (map ?g [0..<Suc (length t)])"
    by (simp only: rmatch.simps(3) rmatch_group_lazy_any map_map comp_def rmatch_look_delim)
  have "concat (map ?g [0..<Suc (length t)]) \<noteq> [] \<and>
        hd (concat (map ?g [0..<Suc (length t)])) = hd (?g ?i0)"
    using upto_delim_props [where t=t] by (intro first_hit) auto
  then show ?thesis
    unfolding eq using upto_delim_props [where t=t] by simp
qed

lemma hd_concat_first: "f x \<noteq> [] \<Longrightarrow> hd (concat (map f (x # xs))) = hd (f x)"
  by simp

lemma ingr_at:
  "rmatch re_ingredients (p, s, None) =
     (if istarts s ''Ingredients:''
      then concat (map (rmatch (Seq (Group (LazyStar (Atom (\<lambda>c. True))))
                    (Look (Alt (lit ''*'') (Alt (lit ''Contains:'') (Alt (lit ''Allergen'') (Alt (lit ''Nutrition'') Eos)))))))
             (map (\<lambda>j. (prev_after (prev_lit p s ''Ingredients:'') (after_label ''Ingredients:'' s) j,
                         drop j (after_label ''Ingredients:'' s), None))
                  (rev [0..<Suc (length (takeWhile is_space (after_label ''Ingredients:'' s)))])))
      else [])"
proof -
  have X: "rmatch (Seq G (Seq Lk Eps)) = rmatch (Seq G Lk)" for G Lk
    by (rule ext) (rule rmatch_seq_seq_Eps)
  have S: "rmatch (Seq (Star a) b) = (\<lambda>st. concat (map (rmatch b) (rmatch (Star a) st)))" for a b
    by (rule ext) (simp only: rmatch.simps(3))
  have "rmatch re_ingredients (p, s, None)
        = concat (map (\<lambda>st. concat (map (rmatch (Seq (Group (LazyStar (Atom (\<lambda>c. True))))
                                                    (Look (Alt (lit ''*'') (Alt (lit ''Contains:'') (Alt (lit ''Allergen'') (Alt (lit ''Nutrition'') Eos)))))))
                                         (rmatch (Star ws) st)))
                      (rmatch (lit ''Ingredients:'') (p, s, None)))"
    unfolding re_ingredients_def seqs_simps alts.simps
    by (simp only: rmatch.simps(3) S X)
  then show ?thesis
    by (simp add: rmatch_lit rmatch_star_atom del: rmatch.simps upt_Suc)
qed

lemma ingr_empty: "rmatch re_ingredients (p, s, None) = [] \<longleftrightarrow> \<not> istarts s ''Ingredients:''"
  using ingr_tail [of "prev_after (prev_lit p s ''Ingredients:'') (after_label ''Ingredients:'' s)
                         (length (takeWhile is_space (after_label ''Ingredients:'' s)))"
                      "drop (length (takeWhile is_space (after_label ''Ingredients:'' s)))
                         (after_label ''Ingredients:'' s)" None]
  by (simp add: ingr_at rev_upt_Suc_from del: rmatch.simps upt_Suc)

lemma ingr_hd:
  assumes "istarts s ''Ingredients:''"
  shows "snd (snd (hd (rmatch re_ingredients (p, s, None))))
         = Some (upto_delim (dropWhile is_space (after_label ''Ingredients:'' s)))"
  using assms
    ingr_tail [of "prev_after (prev_lit p s ''Ingredients:'') (after_label ''Ingredients:'' s)
                         (length (takeWhile is_space (after_label ''Ingredients:'' s)))"
                  "drop (length (takeWhile is_space (after_label ''Ingredients:'' s)))
                         (after_label ''Ingredients:'' s)" None]
  by (simp add: ingr_at rev_upt_Suc_from drop_run del: rmatch.simps upt_Suc)

lemma extractIngredients_found:
  assumes "\<not> starts_in (\<lambda>t. istarts t ''Ingredients:'') pre s" and "istarts s ''Ingredients:''"
  shows "extractIngredients (pre @ s)
         = Inr (take 2000 (collapse_ws (trim (upto_delim (dropWhile is_space (after_label ''Ingredients:'' s))))))"
proof -
  have "js_match (pre @ s) re_ingredients
        = Some (Some (upto_delim (dropWhile is_space (after_label ''Ingredients:'' s))))"
  proof (rule js_match_found)
    fix p
    show "\<not> starts_in (\<lambda>t. rmatch re_ingredients (p, t, None) \<noteq> []) pre s"
      using assms(1) by (simp add: ingr_empty)
    show "rmatch re_ingredients (p, s, None) \<noteq> []" using assms(2) by (simp add: ingr_empty)
    show "snd (snd (hd (rmatch re_ingredients (p, s, None))))
          = Some (upto_delim (dropWhile is_space (after_label ''Ingredients:'' s)))"
      using assms(2) by (rule ingr_hd)
  qed
  then show ?thesis by (simp add: extractIngredients_def)
qed

lemma istarts_Cons_Cons: "istarts (x # xs) (c # w) = (ieq c x \<and> istarts xs w)"
  by (simp add: istarts_Cons)

lemma space_cases:
  "is_space c \<Longrightarrow> c = CHR 0x09 \<or> c = CHR 0x0A \<or> c = CHR 0x0B \<or> c = CHR 0x0C \<or> c = CHR 0x0D
     \<or> c = CHR 0x20 \<or> c = CHR 0xA0"
  by (simp add: is_space_def)

lemma space_not_ieq:
  assumes "is_space c"
  shows "\<not> ieq (CHR ''*'') c" "\<not> ieq (CHR ''C'') c" "\<not> ieq (CHR ''A'') c" "\<not> ieq (CHR ''N'') c"
  using space_cases [OF assms] by (elim disjE; simp add: ieq_def canonicalize_def)+

lemma space_not_delim: "is_space c \<Longrightarrow> \<not> delim_at (c # cs)"
  unfolding delim_at_def by (simp only: istarts_Cons_Cons space_not_ieq) simp

lemma upto_delim_spaces: "upto_delim x = takeWhile is_space x @ upto_delim (dropWhile is_space x)"
  by (induction x) (auto simp: space_not_delim)

lemma trim_spaces_append: "\<forall>c\<in>set sp. is_space c \<Longrightarrow> trim (sp @ y) = trim y"
  by (simp add: trim_def dropWhile_append2)

lemma trim_upto_delim: "trim (upto_delim (dropWhile is_space x)) = trim (upto_delim x)"
proof -
  have "\<forall>c\<in>set (takeWhile is_space x). is_space c" by (auto dest: set_takeWhileD)
  then show ?thesis
    by (subst (2) upto_delim_spaces) (simp add: trim_spaces_append)
qed

lemma upto_delim_block:
  "\<not> starts_in delim_at block post \<Longrightarrow> upto_delim (block @ post) = block @ upto_delim post"
  by (induction block) auto

lemma dropWhile_id: "(case s of [] \<Rightarrow> True | c # _ \<Rightarrow> \<not> P c) \<Longrightarrow> dropWhile P s = s"
  by (cases s) auto

lemma trim_block:
  assumes "block \<noteq> []" and "\<forall>c\<in>set block. \<not> is_space c"
  shows "\<exists>z'. trim (block @ z) = block @ z'"
proof -
  have 1: "dropWhile is_space (block @ z) = block @ z"
    using assms by (cases block) auto
  have 2: "dropWhile is_space (rev block) = rev block"
    using assms last_in_set [of block] by (simp add: dropWhile_eq_self_iff hd_rev)
  have "dropWhile is_space (rev z @ rev block) = rev block
        \<or> dropWhile is_space (rev z @ rev block) = dropWhile is_space (rev z) @ rev block"
    using 2 by (auto simp: dropWhile_append)
  then show ?thesis
    unfolding trim_def 1 by auto
qed

lemma collapse_block:
  "\<forall>c\<in>set block. \<not> is_space c \<Longrightarrow> collapse_ws (block @ y) = block @ collapse_ws y"
  by (induction block) auto

lemma not_delim_x: "\<not> delim_at (CHR ''x'' # t)"
  unfolding delim_at_def by (simp add: istarts_Cons_Cons ieq_def canonicalize_def)

lemma no_delim_in_xs: "\<not> starts_in delim_at (replicate n (CHR ''x'')) post"
  by (induction n) (simp_all add: not_delim_x)

text \<open>Capture group 1 always takes part; the shape of the records.\<close>

lemma rmatch_cap_mono:
  "st' \<in> set (rmatch r st) \<Longrightarrow> snd (snd st) \<noteq> None \<Longrightarrow> snd (snd st') \<noteq> None"
proof (induction r st arbitrary: st' rule: rmatch.induct)
  case (1 P p s k)
  then show ?case by (cases s) (auto split: if_splits)
next
  case (3 a b st)
  from "3.prems" obtain x where x: "x \<in> set (rmatch a st)" "st' \<in> set (rmatch b x)"
    by auto
  from "3.IH"(1) [OF x(1) "3.prems"(2)] "3.IH"(2) [OF x] show ?case by simp
next
  case (4 a b st)
  from "4.prems" have "st' \<in> set (rmatch a st) \<or> st' \<in> set (rmatch b st)" by simp
  then show ?case using "4.IH" "4.prems"(2) by blast
next
  case (5 a p s k)
  show ?case
  proof (cases "st' = (p, s, k)")
    case True
    then show ?thesis using "5.prems" by simp
  next
    case False
    with "5.prems" obtain x where x: "x \<in> set (rmatch a (p, s, k))"
      "length (fst (snd x)) < length s" "st' \<in> set (rmatch (Star a) x)"
      by (auto split: if_splits)
    from "5.IH"(1) [OF x(1) "5.prems"(2)] "5.IH"(2) [OF x] show ?thesis by simp
  qed
next
  case (6 a p s k)
  show ?case
  proof (cases "st' = (p, s, k)")
    case True
    then show ?thesis using "6.prems" by simp
  next
    case False
    with "6.prems" obtain x where x: "x \<in> set (rmatch a (p, s, k))"
      "length (fst (snd x)) < length s" "st' \<in> set (rmatch (LazyStar a) x)"
      by (auto split: if_splits)
    from "6.IH"(1) [OF x(1) "6.prems"(2)] "6.IH"(2) [OF x] show ?thesis by simp
  qed
next
  case (8 a p s k)
  show ?case
  proof (cases "rmatch a (p, s, k)")
    case Nil
    with "8.prems" show ?thesis by simp
  next
    case (Cons x xs)
    then have "x \<in> set (rmatch a (p, s, k))" by simp
    from "8.IH" [OF this] "8.prems" Cons show ?thesis by simp
  qed
qed (auto split: if_splits)

lemma rmatch_binds:
  "binds r \<Longrightarrow> st' \<in> set (rmatch r st) \<Longrightarrow> snd (snd st') \<noteq> None"
proof (induction r arbitrary: st st')
  case (Seq a b)
  from Seq.prems(2) obtain x where x: "x \<in> set (rmatch a st)" "st' \<in> set (rmatch b x)"
    by auto
  show ?case
  proof (cases "binds b")
    case True
    from Seq.IH(2) [OF True x(2)] show ?thesis .
  next
    case False
    with Seq.prems(1) have "binds a" by simp
    from Seq.IH(1) [OF this x(1)] rmatch_cap_mono [OF x(2)] show ?thesis by simp
  qed
next
  case (Alt a b)
  from Alt.prems have "st' \<in> set (rmatch a st) \<or> st' \<in> set (rmatch b st)"
    and "binds a" and "binds b" by simp_all
  then show ?case using Alt.IH by blast
next
  case (Group r)
  then show ?case by (cases st) auto
qed simp_all

lemma rsearch_binds: "binds r \<Longrightarrow> rsearch r p s \<noteq> Some None"
proof (induction s arbitrary: p)
  case Nil
  then show ?case
    using rmatch_binds [of r _ "(p, [], None)"]
    by (cases "rmatch r (p, [], None)") auto
next
  case (Cons c cs)
  then show ?case
    using rmatch_binds [of r _ "(p, c # cs, None)"]
    by (cases "rmatch r (p, c # cs, None)") auto
qed

lemma extractMatch_binds: "binds r \<Longrightarrow> \<exists>v. extractMatch text r = Inr v"
  using rsearch_binds [of r None "text"]
  by (cases "js_match text r") (auto simp: extractMatch_def js_match_def split: option.splits)

lemma extractIngredients_ok: "\<exists>v. extractIngredients text = Inr v"
proof -
  have "binds re_ingredients" by (simp add: re_ingredients_def seqs_simps)
  from rsearch_binds [OF this, of None "text"] show ?thesis
    by (cases "js_match text re_ingredients")
       (auto simp: extractIngredients_def js_match_def split: option.splits)
qed

lemma extract_calories_ok: "\<exists>v. extract_calories text = Inr (Str v)"
proof -
  have b: "binds re_calories1" "binds re_calories2" "binds re_calories3" "binds re_calories4"
    by (simp_all add: re_calories1_def re_calories2_def re_calories3_def re_calories4_def seqs_simps)
  from b(1) obtain c1 where c1: "extractMatch text re_calories1 = Inr c1"
    using extractMatch_binds by blast
  from b(2) obtain c2 where c2: "extractMatch text re_calories2 = Inr c2"
    using extractMatch_binds by blast
  from b(3) obtain c3 where c3: "extractMatch text re_calories3 = Inr c3"
    using extractMatch_binds by blast
  from rsearch_binds [OF b(4), of None "text"] have "js_match text re_calories4 \<noteq> Some None"
    by (simp add: js_match_def)
  then show ?thesis
    by (cases "js_match text re_calories4")
       (auto simp: extract_calories_def bindE_def c1 c2 c3 split: option.splits)
qed

lemma extract_serving_ok: "\<exists>v. extract_serving text = Inr v"
proof -
  have b: "binds re_serving1" "binds re_serving2" "binds re_serving3"
    by (simp_all add: re_serving1_def re_serving2_def re_serving3_def seqs_simps)
  from b(1) obtain c1 where c1: "extractMatch text re_serving1 = Inr c1"
    using extractMatch_binds by blast
  from b(2) obtain c2 where c2: "extractMatch text re_serving2 = Inr c2"
    using extractMatch_binds by blast
  from b(3) obtain c3 where c3: "extractMatch text re_serving3 = Inr c3"
    using extractMatch_binds by blast
  show ?thesis by (simp add: extract_serving_def bindE_def c1 c2 c3)
qed

lemma nutrition_of_text_explicit:
  "\<exists>srv cal tf sf trf ch so tc fi su pr ing.
     extract_serving text = Inr srv \<and> extract_calories text = Inr (Str cal)
     \<and> extractMatch text re_total_fat = Inr tf
     \<and> extractMatch text re_saturated_fat = Inr sf
     \<and> extractMatch text re_trans_fat = Inr trf
     \<and> extractMatch text re_cholesterol = Inr ch
     \<and> extractMatch text re_sodium = Inr so
     \<and> extractMatch text re_total_carbs = Inr tc
     \<and> extractMatch text re_fiber = Inr fi
     \<and> extractMatch text re_sugars = Inr su
     \<and> extractMatch text re_protein = Inr pr
     \<and> extractIngredients text = Inr ing
     \<and> nutrition_of_text text =
        Inr [(''serving_size'', Str srv), (''calories'', Str cal), (''total_fat_g'', Str tf),
             (''saturated_fat_g'', Str sf), (''trans_fat_g'', Str trf), (''cholesterol_mg'', Str ch),
             (''sodium_mg'', Str so), (''total_carbs_g'', Str tc), (''fiber_g'', Str fi),
             (''sugars_g'', Str su), (''protein_g'', Str pr), (''ingredients'', Str ing)]"
proof -
  obtain srv where 1: "extract_serving text = Inr srv" using extract_serving_ok by blast
  obtain cal where 2: "extract_calories text = Inr (Str cal)" using extract_calories_ok by blast
  have b: "binds re_total_fat" "binds re_saturated_fat" "binds re_trans_fat" "binds re_cholesterol"
    "binds re_sodium" "binds re_total_carbs" "binds re_fiber" "binds re_sugars" "binds re_protein"
    by (simp_all add: re_total_fat_def re_saturated_fat_def re_trans_fat_def re_cholesterol_def
          re_sodium_def re_total_carbs_def re_fiber_def re_sugars_def re_protein_def seqs_simps)
  obtain tf where 3: "extractMatch text re_total_fat = Inr tf" using b extractMatch_binds by blast
  obtain sf where 4: "extractMatch text re_saturated_fat = Inr sf" using b extractMatch_binds by blast
  obtain trf where 5: "extractMatch text re_trans_fat = Inr trf" using b extractMatch_binds by blast
  obtain ch where 6: "extractMatch text re_cholesterol = Inr ch" using b extractMatch_binds by blast
  obtain so where 7: "extractMatch text re_sodium = Inr so" using b extractMatch_binds by blast
  obtain tc where 8: "extractMatch text re_total_carbs = Inr tc" using b extractMatch_binds by blast
  obtain fi where 9: "extractMatch text re_fiber = Inr fi" using b extractMatch_binds by blast
  obtain su where 10: "extractMatch text re_sugars = Inr su" using b extractMatch_binds by blast
  obtain pr where 11: "extractMatch text re_protein = Inr pr" using b extractMatch_binds by blast
  obtain ing where 12: "extractIngredients text = Inr ing" using extractIngredients_ok by blast
  show ?thesis
    by (simp add: nutrition_of_text_def bindE_def str_of_def 1 2 3 4 5 6 7 8 9 10 11 12)
qed

lemma findModal_state: "snd (findModal d s) = s"
  by (auto simp: findModal_def andThen_def observe_def ret_def split: sum.splits option.splits)

lemma extractNutritionFromModal_result:
  assumes "extractNutritionFromModal d s = (Inr nd, s1)"
  shows "(\<exists>m. fst (findModal d s) = Inr (Some m) \<and> nutrition_of_text (textContent m) = Inr nd)
         \<or> (fst (findModal d s) = Inr None \<and> nd = [])"
proof (cases "findModal d s")
  case (Pair res s2)
  then have s2: "s2 = s" using findModal_state [of d s] by simp
  from assms Pair show ?thesis
    by (auto simp: extractNutritionFromModal_def andThen_def logTo_def ret_def
             split: sum.splits option.splits)
qed

lemma scrapeItemRow_result:
  assumes "scrapeItemRow d r rn mp s = (Inr (Some rec), s')"
  shows "\<exists>rv link w nd s1.
           viewRow d r (page s) = Inr rv \<and> itemLink rv = Some link
           \<and> click d (handle link) (page s) = Inr w
           \<and> extractNutritionFromModal d (s\<lparr>page := wait d delayBetweenClicks w\<rparr>) = (Inr nd, s1)
           \<and> rec = spread [(''restaurant'', Str rn), (''meal_period'', Str mp),
                           (''item_name'', Str (trim (textContent link))),
                           (''serving_size'', Str (getServingSize rv)),
                           (''dietary_labels'', Str (getDietaryLabels rv))] nd"
  using assms
  by (auto simp: scrapeItemRow_def andThen_def observe_def act_def await_def ret_def logTo_def Let_def
           split: sum.splits option.splits if_splits prod.splits)

lemma spread_Nil: "spread base [] = base"
  by (simp add: spread_def)

lemma spread_nutrition:
  "spread [(''restaurant'', a), (''meal_period'', b), (''item_name'', c), (''serving_size'', e),
           (''dietary_labels'', f)]
          [(''serving_size'', v1), (''calories'', v2), (''total_fat_g'', v3),
           (''saturated_fat_g'', v4), (''trans_fat_g'', v5), (''cholesterol_mg'', v6),
           (''sodium_mg'', v7), (''total_carbs_g'', v8), (''fiber_g'', v9),
           (''sugars_g'', v10), (''protein_g'', v11), (''ingredients'', v12)]
   = [(''restaurant'', a), (''meal_period'', b), (''item_name'', c), (''serving_size'', v1),
      (''dietary_labels'', f), (''calories'', v2), (''total_fat_g'', v3),
      (''saturated_fat_g'', v4), (''trans_fat_g'', v5), (''cholesterol_mg'', v6),
      (''sodium_mg'', v7), (''total_carbs_g'', v8), (''fiber_g'', v9),
      (''sugars_g'', v10), (''protein_g'', v11), (''ingredients'', v12)]"
  by (simp add: spread_def assign_def)

lemma emits_found:
  assumes "emits d r rn mp s rec rv (Some m)"
  shows "\<exists>link srv cal tf sf trf ch so tc fi su pr ing.
     itemLink rv = Some link
     \<and> extract_serving (textContent m) = Inr srv \<and> extract_calories (textContent m) = Inr (Str cal)
     \<and> extractMatch (textContent m) re_total_fat = Inr tf
     \<and> extractMatch (textContent m) re_saturated_fat = Inr sf
     \<and> extractMatch (textContent m) re_trans_fat = Inr trf
     \<and> extractMatch (textContent m) re_cholesterol = Inr ch
     \<and> extractMatch (textContent m) re_sodium = Inr so
     \<and> extractMatch (textContent m) re_total_carbs = Inr tc
     \<and> extractMatch (textContent m) re_fiber = Inr fi
     \<and> extractMatch (textContent m) re_sugars = Inr su
     \<and> extractMatch (textContent m) re_protein = Inr pr
     \<and> extractIngredients (textContent m) = Inr ing
     \<and> rec = [(''restaurant'', Str rn), (''meal_period'', Str mp),
              (''item_name'', Str (trim (textContent link))), (''serving_size'', Str srv),
              (''dietary_labels'', Str (getDietaryLabels rv)), (''calories'', Str cal),
              (''total_fat_g'', Str tf), (''saturated_fat_g'', Str sf), (''trans_fat_g'', Str trf),
              (''cholesterol_mg'', Str ch), (''sodium_mg'', Str so), (''total_carbs_g'', Str tc),
              (''fiber_g'', Str fi), (''sugars_g'', Str su), (''protein_g'', Str pr),
              (''ingredients'', Str ing)]"
proof -
  from assms obtain s' link w where run: "scrapeItemRow d r rn mp s = (Inr (Some rec), s')"
    and v: "viewRow d r (page s) = Inr rv" "itemLink rv = Some link"
    and c: "click d (handle link) (page s) = Inr w"
    and f: "fst (findModal d (s\<lparr>page := wait d delayBetweenClicks w\<rparr>)) = Inr (Some m)"
    unfolding emits_def by blast
  from scrapeItemRow_result [OF run] v c obtain nd s1 where
    n: "extractNutritionFromModal d (s\<lparr>page := wait d delayBetweenClicks w\<rparr>) = (Inr nd, s1)"
    and rec: "rec = spread [(''restaurant'', Str rn), (''meal_period'', Str mp),
                           (''item_name'', Str (trim (textContent link))),
                           (''serving_size'', Str (getServingSize rv)),
                           (''dietary_labels'', Str (getDietaryLabels rv))] nd"
    by auto
  from extractNutritionFromModal_result [OF n] f
  have nd: "nutrition_of_text (textContent m) = Inr nd" by auto
  from nutrition_of_text_explicit [of "textContent m"] nd v(2) show ?thesis
    unfolding rec by (auto simp: spread_nutrition)
qed

lemma emits_missing:
  assumes "emits d r rn mp s rec rv None"
  shows "\<exists>link. itemLink rv = Some link
     \<and> rec = [(''restaurant'', Str rn), (''meal_period'', Str mp),
              (''item_name'', Str (trim (textContent link))),
              (''serving_size'', Str (getServingSize rv)),
              (''dietary_labels'', Str (getDietaryLabels rv))]"
proof -
  from assms obtain s' link w where run: "scrapeItemRow d r rn mp s = (Inr (Some rec), s')"
    and v: "viewRow d r (page s) = Inr rv" "itemLink rv = Some link"
    and c: "click d (handle link) (page s) = Inr w"
    and f: "fst (findModal d (s\<lparr>page := wait d delayBetweenClicks w\<rparr>)) = Inr None"
    unfolding emits_def by blast
  from scrapeItemRow_result [OF run] v c obtain nd s1 where
    n: "extractNutritionFromModal d (s\<lparr>page := wait d delayBetweenClicks w\<rparr>) = (Inr nd, s1)"
    and rec: "rec = spread [(''restaurant'', Str rn), (''meal_period'', Str mp),
                           (''item_name'', Str (trim (textContent link))),
                           (''serving_size'', Str (getServingSize rv)),
                           (''dietary_labels'', Str (getDietaryLabels rv))] nd"
    by auto
  from extractNutritionFromModal_result [OF n] f have "nd = []" by auto
  with rec v(2) show ?thesis by (simp add: spread_Nil)
qed

lemma found_record_fields:
  assumes e: "extract_serving t = Inr srv" "extract_calories t = Inr (Str cal)"
      "extractMatch t re_total_fat = Inr tf"
      "extractMatch t re_saturated_fat = Inr sf"
      "extractMatch t re_trans_fat = Inr trf"
      "extractMatch t re_cholesterol = Inr ch"
      "extractMatch t re_sodium = Inr so"
      "extractMatch t re_total_carbs = Inr tc"
      "extractMatch t re_fiber = Inr fi"
      "extractMatch t re_sugars = Inr su"
      "extractMatch t re_protein = Inr pr"
      "extractIngredients t = Inr ing"
    and rec: "rec = [(''restaurant'', Str rn), (''meal_period'', Str mp),
              (''item_name'', Str nm), (''serving_size'', Str srv),
              (''dietary_labels'', Str lb), (''calories'', Str cal),
              (''total_fat_g'', Str tf), (''saturated_fat_g'', Str sf), (''trans_fat_g'', Str trf),
              (''cholesterol_mg'', Str ch), (''sodium_mg'', Str so), (''total_carbs_g'', Str tc),
              (''fiber_g'', Str fi), (''sugars_g'', Str su), (''protein_g'', Str pr),
              (''ingredients'', Str ing)]"
  shows "map fst rec = row_fields @ tl nutrition_fields \<and> all_strings rec
          \<and> (\<forall>fp\<in>set field_patterns.
                (\<forall>re\<in>set (snd fp). js_match t re = None)
                \<longrightarrow> map_of rec (fst fp) = Some (Str []))"
proof (intro conjI)
  show "map fst rec = row_fields @ tl nutrition_fields"
    unfolding rec by (simp add: row_fields_def nutrition_fields_def)
  show "all_strings rec" unfolding rec by (simp add: all_strings_def)
  have srv: "js_match t re_serving1 = None \<Longrightarrow> js_match t re_serving2 = None
             \<Longrightarrow> js_match t re_serving3 = None \<Longrightarrow> srv = []"
    using e(1) by (simp add: extract_serving_def extractMatch_def bindE_def)
  have cal: "js_match t re_calories1 = None \<Longrightarrow> js_match t re_calories2 = None
             \<Longrightarrow> js_match t re_calories3 = None
             \<Longrightarrow> js_match t re_calories4 = None \<Longrightarrow> cal = []"
    using e(2) by (simp add: extract_calories_def extractMatch_def bindE_def)
  have one: "js_match t re = None \<Longrightarrow> extractMatch t re = Inr v \<Longrightarrow> v = []"
    for re v by (simp add: extractMatch_def)
  have ing: "js_match t re_ingredients = None \<Longrightarrow> ing = []"
    using e(12) by (simp add: extractIngredients_def)
  show "\<forall>fp\<in>set field_patterns.
          (\<forall>re\<in>set (snd fp). js_match t re = None)
          \<longrightarrow> map_of rec (fst fp) = Some (Str [])"
    unfolding rec field_patterns_def
    using srv cal ing one [OF _ e(3)] one [OF _ e(4)] one [OF _ e(5)] one [OF _ e(6)]
      one [OF _ e(7)] one [OF _ e(8)] one [OF _ e(9)] one [OF _ e(10)] one [OF _ e(11)]
    by simp
qed

text \<open>The example page: what the text functions give on its rows and modals, and what
  \<^verbatim>\<open>scrapeItemRow\<close> does on each row, from any state.\<close>

lemma demo_nutrition_1:
  "nutrition_of_text (demoModalText 11)
   = Inr [(''serving_size'', Str ''5 oz (142g)''), (''calories'', Str ''250''),
          (''total_fat_g'', Str []), (''saturated_fat_g'', Str []), (''trans_fat_g'', Str []),
          (''cholesterol_mg'', Str []), (''sodium_mg'', Str []), (''total_carbs_g'', Str []),
          (''fiber_g'', Str []), (''sugars_g'', Str []), (''protein_g'', Str ''12.5''),
          (''ingredients'', Str [])]"
  by code_simp

lemma demo_nutrition_2:
  "nutrition_of_text (demoModalText 12)
   = Inr [(''serving_size'', Str []), (''calories'', Str ''160''),
          (''total_fat_g'', Str []), (''saturated_fat_g'', Str []), (''trans_fat_g'', Str []),
          (''cholesterol_mg'', Str []), (''sodium_mg'', Str []), (''total_carbs_g'', Str []),
          (''fiber_g'', Str []), (''sugars_g'', Str []), (''protein_g'', Str []),
          (''ingredients'', Str [])]"
  by code_simp

lemma demo_rows:
  "getServingSize (demoRow 11) = ''4 oz''" "getDietaryLabels (demoRow 11) = ''Vegan; Vegetarian''"
  "getServingSize (demoRow 12) = ''1 each''" "getDietaryLabels (demoRow 12) = []"
  "getServingSize (demoRow 14) = ''2 slice''" "getDietaryLabels (demoRow 14) = ''Halal''"
  by code_simp+

lemma demo_modal_found:
  "includes_str (demoModalText 11) ''Nutrition Information''"
  "includes_str (demoModalText 12) ''Nutrition Information''"
  by code_simp+

lemma demo_names:
  "trim '' Tofu Bowl '' = ''Tofu Bowl''" "trim ''Cookie'' = ''Cookie''" "trim ''Pizza'' = ''Pizza''"
  by code_simp+

lemma demo_links:
  "itemLink (demoRow 11) = Some (demoElement 11 '' Tofu Bowl '')"
  "itemLink (demoRow 12) = Some (demoElement 12 ''Cookie'')"
  "itemLink (demoRow 14) = Some (demoElement 14 ''Pizza'')"
  by (simp_all add: demoRow_def)

lemma demo_prims:
  "viewRow demoPage h w = (if h = 13 then Inl (Thrown ''stale row'') else Inr (demoRow h))"
  "click demoPage h w = (if h = 102 then Inl (Thrown ''element is detached'') else Inr h)"
  "pressEscape demoPage w = Inr 0" "wait demoPage ms w = w"
  "tableRows demoPage w = Inr [[(11, demoRow 11), (12, demoRow 12), (13, demoRow 13), (14, demoRow 14)]]"
  "querySelectorAll demoPage Clickables w = Inr (demoClickables w)"
  "handle (demoElement h t) = h" "textContent (demoElement h t) = t" "visible (demoElement h t)"
  by (simp_all add: demoPage_def demoElement_def)

lemma demo_findModal:
  "findModal demoPage s
   = (Inr (if page s = 11 \<or> page s = 12 then Some (demoElement 200 (demoModalText (page s))) else None), s)"
  using demo_modal_found
  by (auto simp: findModal_def andThen_def observe_def ret_def demoPage_def demoElement_def)

lemma demo_closeModal: "closeModal demoPage s = (Inr (), s\<lparr>page := 0\<rparr>)"
  by (simp add: closeModal_def andThen_def observe_def act_def await_def demoPage_def)

lemma demo_scrape_1:
  "scrapeItemRow demoPage 11 rn mp s = (Inr (Some (demoRecord1 rn mp)), s\<lparr>page := 0\<rparr>)"
  by (simp add: scrapeItemRow_def extractNutritionFromModal_def andThen_def observe_def act_def
                await_def ret_def Let_def demo_findModal demo_closeModal demo_links demo_names
                demo_rows demo_nutrition_1 spread_nutrition demoRecord1_def demo_prims)

lemma demo_scrape_2:
  "scrapeItemRow demoPage 12 rn mp s = (Inr (Some (demoRecord2 rn mp)), s\<lparr>page := 0\<rparr>)"
  by (simp add: scrapeItemRow_def extractNutritionFromModal_def andThen_def observe_def act_def
                await_def ret_def Let_def demo_findModal demo_closeModal demo_links demo_names
                demo_rows demo_nutrition_2 spread_nutrition demoRecord2_def demo_prims)

lemma demo_scrape_3: "scrapeItemRow demoPage 13 rn mp s = (Inl (Thrown ''stale row''), s)"
  by (simp add: scrapeItemRow_def andThen_def observe_def demo_prims)

lemma demo_scrape_4:
  "scrapeItemRow demoPage 14 rn mp s
   = (Inr (Some (demoRecord4 rn mp)),
      s\<lparr>page := 0, console := console s @ [(Log, ''Could not find modal'')]\<rparr>)"
  by (simp add: scrapeItemRow_def extractNutritionFromModal_def andThen_def observe_def act_def
                await_def ret_def logTo_def Let_def demo_findModal demo_closeModal demo_links
                demo_names demo_rows spread_Nil demoRecord4_def demo_prims)

lemma demo_emits_1:
  "emits demoPage 11 rn mp s (demoRecord1 rn mp) (demoRow 11)
     (Some (demoElement 200 (demoModalText 11)))"
  unfolding emits_def
  by (intro exI [of _ "s\<lparr>page := 0\<rparr>"] exI [of _ "demoElement 11 '' Tofu Bowl ''"] exI [of _ 11])
     (simp add: demo_scrape_1 demo_links demo_findModal demo_prims)

lemma demo_emits_2:
  "emits demoPage 12 rn mp s (demoRecord2 rn mp) (demoRow 12)
     (Some (demoElement 200 (demoModalText 12)))"
  unfolding emits_def
  by (intro exI [of _ "s\<lparr>page := 0\<rparr>"] exI [of _ "demoElement 12 ''Cookie''"] exI [of _ 12])
     (simp add: demo_scrape_2 demo_links demo_findModal demo_prims)

lemma demo_emits_4: "emits demoPage 14 rn mp s (demoRecord4 rn mp) (demoRow 14) None"
  unfolding emits_def
  by (intro exI [of _ "s\<lparr>page := 0, console := console s @ [(Log, ''Could not find modal'')]\<rparr>"]
            exI [of _ "demoElement 14 ''Pizza''"] exI [of _ 14])
     (simp add: demo_scrape_4 demo_links demo_findModal demo_prims)

text \<open>The dataset only grows; the loops.\<close>

lemma grows_refl [simp]: "grows P s s"
  by (simp add: grows_def)

lemma grows_trans: "grows P s s1 \<Longrightarrow> grows P s1 s2 \<Longrightarrow> grows P s s2"
  by (auto simp: grows_def)

lemma grows_page [simp]: "grows P s (s\<lparr>page := w\<rparr>)"
  by (simp add: grows_def)

lemma grows_console [simp]: "grows P s (s\<lparr>console := c\<rparr>)"
  by (simp add: grows_def)

lemma keeps_ret [simp]: "keeps P (ret a)"
  by (simp add: keeps_def ret_def)

lemma keeps_logTo [simp]: "keeps P (logTo l msg)"
  by (auto simp: keeps_def logTo_def)

lemma keeps_observe [simp]: "keeps P (observe f)"
  by (auto simp: keeps_def observe_def split: sum.splits)

lemma keeps_act [simp]: "keeps P (act f)"
  by (auto simp: keeps_def act_def split: sum.splits)

lemma keeps_await [simp]: "keeps P (await d ms)"
  by (auto simp: keeps_def await_def)

lemma keeps_andThen:
  "keeps P m \<Longrightarrow> (\<And>a. keeps P (f a)) \<Longrightarrow> keeps P (andThen m f)"
  unfolding keeps_def andThen_def
  by (auto split: prod.splits sum.splits) (blast intro: grows_trans)

lemma keeps_tryCatch:
  "keeps P m \<Longrightarrow> (\<And>e. keeps P (h e)) \<Longrightarrow> keeps P (tryCatch m h)"
  unfolding keeps_def tryCatch_def
  by (auto split: prod.splits sum.splits) (blast intro: grows_trans)

lemma keeps_forEach: "(\<And>x. keeps P (f x)) \<Longrightarrow> keeps P (forEach xs f)"
  by (induction xs) (simp_all add: keeps_andThen)

lemma keeps_pure: "keeps P (\<lambda>s. (r, s))"
  by (simp add: keeps_def)

lemma keeps_findModal: "keeps P (findModal d)"
  unfolding findModal_def
  by (intro keeps_andThen keeps_observe) (auto split: option.splits intro: keeps_andThen)

lemma keeps_extractNutritionFromModal: "keeps P (extractNutritionFromModal d)"
  unfolding extractNutritionFromModal_def
  by (intro keeps_andThen keeps_findModal)
     (auto split: option.splits intro: keeps_andThen keeps_pure)

lemma keeps_closeWith: "keeps P (closeWith d sels)"
  by (induction sels) (auto split: list.splits intro!: keeps_andThen)

lemma keeps_closeModal: "keeps P (closeModal d)"
  unfolding closeModal_def by (rule keeps_closeWith)

lemma keeps_scrapeItemRow: "keeps P (scrapeItemRow d r rn mp)"
  unfolding scrapeItemRow_def Let_def
  by (intro keeps_andThen keeps_observe)
     (auto split: option.splits
           intro!: keeps_andThen keeps_extractNutritionFromModal keeps_closeModal)

lemma keeps_expandAllCategories: "keeps P (expandAllCategories d)"
  unfolding expandAllCategories_def
  by (intro keeps_forEach keeps_andThen) (auto intro!: keeps_andThen)

lemma keeps_findAllItemRows: "keeps P (findAllItemRows d)"
  unfolding findAllItemRows_def by (intro keeps_andThen) simp_all

lemma keeps_findRestaurantLink: "keeps P (findRestaurantLink d nm)"
  unfolding findRestaurantLink_def by (intro keeps_andThen) simp_all

lemma keeps_findMealPeriods: "keeps P (findMealPeriods d)"
  unfolding findMealPeriods_def by (intro keeps_andThen) simp_all

lemma keeps_unchanged:
  "keeps (\<lambda>_. False) m \<Longrightarrow> m s = (r, s')
   \<Longrightarrow> allData s' = allData s \<and> totalItemsScraped s' = totalItemsScraped s \<and> downloads s' = downloads s"
  by (auto simp: keeps_def grows_def list_all_iff)

lemma forEach_total: "(\<And>x s. fst (f x s) = Inr ()) \<Longrightarrow> fst (forEach xs f s) = Inr ()"
proof (induction xs arbitrary: s)
  case Nil
  show ?case by (simp add: ret_def)
next
  case (Cons x xs)
  from Cons.prems [of x s] obtain s1 where "f x s = (Inr (), s1)"
    by (cases "f x s") auto
  with Cons.IH [OF Cons.prems, of s1] show ?case by (simp add: andThen_def)
qed

lemma forEach_append:
  "(\<And>x s. fst (f x s) = Inr ())
   \<Longrightarrow> forEach (xs @ ys) f s = forEach ys f (snd (forEach xs f s))"
proof (induction xs arbitrary: s)
  case Nil
  show ?case by (simp add: ret_def)
next
  case (Cons x xs)
  from Cons.prems [of x s] obtain s1 where "f x s = (Inr (), s1)"
    by (cases "f x s") auto
  with Cons.IH [OF Cons.prems, of s1] show ?case by (simp add: andThen_def)
qed

lemma forEach_Cons_total:
  "(\<And>x s. fst (f x s) = Inr ()) \<Longrightarrow> forEach (x # xs) f s = forEach xs f (snd (f x s))"
  using forEach_append [of f "[x]" xs s]
  by (cases "f x s") (auto simp: andThen_def ret_def split: sum.splits)

lemma itemStep_total: "fst (itemStep d rn mp r s) = Inr ()"
  by (auto simp: itemStep_def andThen_def tryCatch_def logTo_def await_def ret_def pushItem_def
                 displayName_def
           split: prod.splits sum.splits option.splits jsval.splits)

lemma itemStep_effect:
  "allData (snd (itemStep d rn mp r s))
     = allData s @ successes [fst (scrapeItemRow d r rn mp s)]
   \<and> totalItemsScraped (snd (itemStep d rn mp r s))
     = totalItemsScraped s + length (successes [fst (scrapeItemRow d r rn mp s)])"
proof (cases "scrapeItemRow d r rn mp s")
  case (Pair res s1)
  from keeps_unchanged [OF keeps_scrapeItemRow Pair]
  have u: "allData s1 = allData s" "totalItemsScraped s1 = totalItemsScraped s" by simp_all
  show ?thesis
    using Pair u
    by (cases res)
       (auto simp: itemStep_def andThen_def tryCatch_def logTo_def await_def ret_def pushItem_def
                   displayName_def successes_def List.map_filter_simps
             split: prod.splits sum.splits option.splits jsval.splits)
qed

lemma successes_Cons: "successes (x # xs) = successes [x] @ successes xs"
  by (simp add: successes_def List.map_filter_simps split: sum.splits option.splits)

lemma loop_effect:
  "allData (snd (forEach rows (itemStep d rn mp) s))
     = allData s @ successes (outcomes d rn mp rows s)
   \<and> totalItemsScraped (snd (forEach rows (itemStep d rn mp) s))
     = totalItemsScraped s + length (successes (outcomes d rn mp rows s))"
proof (induction rows arbitrary: s)
  case Nil
  show ?case by (simp add: ret_def successes_def List.map_filter_simps)
next
  case (Cons r rows)
  have "forEach (r # rows) (itemStep d rn mp) s
        = forEach rows (itemStep d rn mp) (snd (itemStep d rn mp r s))"
    by (rule forEach_Cons_total) (rule itemStep_total)
  with Cons.IH [of "snd (itemStep d rn mp r s)"] itemStep_effect [of d rn mp r s]
  show ?case
    by (simp add: successes_Cons [of _ "outcomes d rn mp rows (snd (itemStep d rn mp r s))"])
qed

lemma length_outcomes: "length (outcomes d rn mp rows s) = length rows"
  by (induction rows arbitrary: s) simp_all

lemma restaurantStep_total: "fst (restaurantStep d rest s) = Inr ()"
  by (auto simp: restaurantStep_def andThen_def tryCatch_def logTo_def await_def
           split: prod.splits sum.splits)

lemma itemStep_caught:
  "(case scrapeItemRow d r rn mp s of
      (Inl e, s1) \<Rightarrow>
        itemStep d rn mp r s
        = (Inr (), s1\<lparr>console := console s1 @ [(Warn, ''Error on item: '' @ message e)],
                      page := wait d delayBetweenClicks (page s1)\<rparr>)
    | (Inr _, _) \<Rightarrow> True)"
  by (auto simp: itemStep_def andThen_def tryCatch_def logTo_def await_def
           split: prod.splits sum.splits)

lemma restaurantStep_caught:
  "(case scrapeRestaurant d rest (s\<lparr>console := console s @ [(Log, name rest)]\<rparr>) of
      (Inl e, s1) \<Rightarrow>
        restaurantStep d rest s
        = (Inr (), s1\<lparr>console := console s1 @ [(Err, ''Error scraping '' @ name rest @ '': '' @ message e)],
                      page := wait d delayAfterRestaurant (page s1)\<rparr>)
    | (Inr _, _) \<Rightarrow> True)"
  by (auto simp: restaurantStep_def andThen_def tryCatch_def logTo_def await_def
           split: prod.splits sum.splits)

lemma demo_outcomes:
  "outcomes demoPage rn mp [11, 12, 13, 14] s
   = [Inr (Some (demoRecord1 rn mp)), Inr (Some (demoRecord2 rn mp)), Inl (Thrown ''stale row''),
      Inr (Some (demoRecord4 rn mp))]"
  by (simp add: demo_scrape_1 demo_scrape_2 demo_scrape_3 demo_scrape_4)

section \<open>Meal periods: lemmas\<close>

lemma addPeriod_cases:
  "addPeriod periods el =
     (if detectable el \<and> trim (textContent el) \<notin> period_name ` set periods
      then periods @ [\<lparr>period_name = trim (textContent el), period_element = el\<rparr>]
      else periods)"
  by (auto simp: addPeriod_def detectable_def Let_def list_ex_iff intro: rev_image_eqI)

lemma foldl_addPeriod_sound:
  "p \<in> set (foldl addPeriod periods els) \<Longrightarrow>
     p \<in> set periods
     \<or> (period_element p \<in> set els \<and> detectable (period_element p)
        \<and> period_name p = trim (textContent (period_element p)))"
proof (induction els arbitrary: periods)
  case Nil
  then show ?case by simp
next
  case (Cons el els)
  from Cons.IH [of "addPeriod periods el"] Cons.prems show ?case
    by (auto simp: addPeriod_cases split: if_splits)
qed

lemma foldl_addPeriod_distinct:
  "distinct (map period_name periods) \<Longrightarrow> distinct (map period_name (foldl addPeriod periods els))"
proof (induction els arbitrary: periods)
  case Nil
  then show ?case by simp
next
  case (Cons el els)
  have "distinct (map period_name (addPeriod periods el))"
    using Cons.prems by (auto simp: addPeriod_cases)
  from Cons.IH [OF this] show ?case by simp
qed

lemma foldl_addPeriod_mono: "set periods \<subseteq> set (foldl addPeriod periods els)"
proof (induction els arbitrary: periods)
  case Nil
  show ?case by simp
next
  case (Cons el els)
  have "set periods \<subseteq> set (addPeriod periods el)" by (auto simp: addPeriod_cases)
  with Cons.IH [of "addPeriod periods el"] show ?case by auto
qed

lemma foldl_addPeriod_complete:
  "el \<in> set els \<Longrightarrow> detectable el
   \<Longrightarrow> trim (textContent el) \<in> period_name ` set (foldl addPeriod periods els)"
proof (induction els arbitrary: periods)
  case Nil
  then show ?case by simp
next
  case (Cons x els)
  show ?case
  proof (cases "el = x")
    case True
    with Cons.prems have "trim (textContent el) \<in> period_name ` set (addPeriod periods x)"
      by (auto simp: addPeriod_cases)
    with foldl_addPeriod_mono [of "addPeriod periods x" els] show ?thesis by auto
  next
    case False
    with Cons.prems Cons.IH [of "addPeriod periods x"] show ?thesis by simp
  qed
qed

lemma foldl_addPeriod_none:
  "\<forall>el\<in>set els. \<not> detectable el \<Longrightarrow> foldl addPeriod periods els = periods"
  by (induction els arbitrary: periods) (simp_all add: addPeriod_cases)

lemma includes_str_iff: "includes_str s sub \<longleftrightarrow> (\<exists>a b. s = a @ sub @ b)"
proof (induction s)
  case Nil
  show ?case by simp
next
  case (Cons c cs)
  show ?case
  proof
    assume "includes_str (c # cs) sub"
    then consider "starts_with (c # cs) sub" | "includes_str cs sub" by auto
    then show "\<exists>a b. c # cs = a @ sub @ b"
    proof cases
      case 1
      then have "c # cs = [] @ sub @ drop (length sub) (c # cs)"
        unfolding starts_with_def by (metis append_Nil append_take_drop_id)
      then show ?thesis by blast
    next
      case 2
      with Cons.IH obtain a b where "cs = a @ sub @ b" by auto
      then have "c # cs = (c # a) @ sub @ b" by simp
      then show ?thesis by blast
    qed
  next
    assume "\<exists>a b. c # cs = a @ sub @ b"
    then obtain a b where ab: "c # cs = a @ sub @ b" by auto
    show "includes_str (c # cs) sub"
    proof (cases a)
      case Nil
      with ab have "starts_with (c # cs) sub" by (simp add: starts_with_def)
      then show ?thesis by simp
    next
      case (Cons x xs)
      with ab have "cs = xs @ sub @ b" by simp
      with Cons.IH show ?thesis by auto
    qed
  qed
qed

lemma scrapeItemRow_meal_period:
  assumes "scrapeItemRow d r rn mp s = (Inr (Some rec), s')"
  shows "map_of rec ''meal_period'' = Some (Str mp)"
proof -
  from scrapeItemRow_result [OF assms] obtain rv link w nd s1 where
    "viewRow d r (page s) = Inr rv \<and> itemLink rv = Some link
           \<and> click d (handle link) (page s) = Inr w
           \<and> extractNutritionFromModal d (s\<lparr>page := wait d delayBetweenClicks w\<rparr>) = (Inr nd, s1)
           \<and> rec = spread [(''restaurant'', Str rn), (''meal_period'', Str mp),
                           (''item_name'', Str (trim (textContent link))),
                           (''serving_size'', Str (getServingSize rv)),
                           (''dietary_labels'', Str (getDietaryLabels rv))] nd"
    by (elim exE)
  then have n: "extractNutritionFromModal d (s\<lparr>page := wait d delayBetweenClicks w\<rparr>) = (Inr nd, s1)"
    and rec: "rec = spread [(''restaurant'', Str rn), (''meal_period'', Str mp),
                           (''item_name'', Str (trim (textContent link))),
                           (''serving_size'', Str (getServingSize rv)),
                           (''dietary_labels'', Str (getDietaryLabels rv))] nd"
    by simp_all
  from extractNutritionFromModal_result [OF n] show ?thesis
  proof
    assume "\<exists>m. fst (findModal d (s\<lparr>page := wait d delayBetweenClicks w\<rparr>)) = Inr (Some m)
                \<and> nutrition_of_text (textContent m) = Inr nd"
    then obtain m :: element where "nutrition_of_text (textContent m) = Inr nd" by blast
    with nutrition_of_text_explicit [of "textContent m"] show ?thesis
      unfolding rec by (auto simp: spread_nutrition)
  next
    assume "fst (findModal d (s\<lparr>page := wait d delayBetweenClicks w\<rparr>)) = Inr None \<and> nd = []"
    then show ?thesis unfolding rec by (simp add: spread_Nil)
  qed
qed

lemma keeps_andThen_result:
  "keeps P m \<Longrightarrow> (\<And>a s s'. m s = (Inr a, s') \<Longrightarrow> keeps P (f a)) \<Longrightarrow> keeps P (andThen m f)"
  unfolding keeps_def andThen_def
  by (auto split: prod.splits sum.splits) (blast intro: grows_trans)

lemma keeps_pushItem: "P item \<Longrightarrow> keeps P (pushItem item)"
  by (auto simp: keeps_def pushItem_def grows_def)

lemma keeps_displayName [simp]: "keeps P (displayName item)"
  by (auto simp: keeps_def displayName_def split: option.splits jsval.splits)

lemma keeps_item_body:
  assumes "scrapeItemRow d r rn mp s = (Inr itemData, s')"
  shows "keeps (\<lambda>rec. map_of rec ''meal_period'' = Some (Str mp))
               (case itemData of None \<Rightarrow> ret ()
                | Some item \<Rightarrow> andThen (pushItem item)
                    (\<lambda>_. andThen (displayName item) (\<lambda>n. logTo Log (''item '' @ n))))"
proof (cases itemData)
  case None
  then show ?thesis by simp
next
  case (Some item)
  with assms have "map_of item ''meal_period'' = Some (Str mp)"
    by (auto dest: scrapeItemRow_meal_period)
  with Some show ?thesis
    by (auto intro!: keeps_andThen keeps_pushItem)
qed

lemma keeps_itemStep:
  "keeps (\<lambda>rec. map_of rec ''meal_period'' = Some (Str mp)) (itemStep d rn mp r)"
  unfolding itemStep_def
  apply (rule keeps_andThen)
   apply (rule keeps_tryCatch)
    apply (rule keeps_andThen_result)
     apply (rule keeps_scrapeItemRow)
    apply (erule keeps_item_body)
   apply simp
  apply simp
  done

lemma keeps_scrapeCurrentPage:
  "keeps (\<lambda>rec. map_of rec ''meal_period'' = Some (Str mp)) (scrapeCurrentPage d rn mp)"
  unfolding scrapeCurrentPage_def Let_def
  by (intro keeps_andThen keeps_expandAllCategories keeps_findAllItemRows keeps_forEach
            keeps_itemStep)
     simp_all

lemma findMealPeriods_result:
  "querySelectorAll d Clickables (page s) = Inr els
   \<Longrightarrow> findMealPeriods d s = (Inr (foldl addPeriod [] els), s)"
  by (simp add: findMealPeriods_def andThen_def observe_def ret_def)

lemma foldl_addPeriod_empty:
  "foldl addPeriod [] els = [] \<longleftrightarrow> (\<forall>el\<in>set els. \<not> detectable el)"
proof
  assume e: "foldl addPeriod [] els = []"
  show "\<forall>el\<in>set els. \<not> detectable el"
  proof
    fix el assume "el \<in> set els"
    with foldl_addPeriod_complete [of el els "[]"] e show "\<not> detectable el" by auto
  qed
next
  assume "\<forall>el\<in>set els. \<not> detectable el"
  then show "foldl addPeriod [] els = []" by (rule foldl_addPeriod_none)
qed

lemma scrapeRestaurant_no_periods:
  assumes l: "findRestaurantLink d (name restaurant) s = (Inr (Some link), s)"
    and c: "click d (handle link) (page s) = Inr w"
    and q: "querySelectorAll d Clickables (wait d delayAfterRestaurant w) = Inr els"
    and n: "\<forall>el\<in>set els. \<not> detectable el"
  shows "scrapeRestaurant d restaurant s
         = andThen (logTo Log ''No meal periods found, scraping all items...'')
             (\<lambda>_. scrapeCurrentPage d (name restaurant) ''All Day'')
             (s\<lparr>page := wait d delayAfterRestaurant w\<rparr>)"
proof -
  let ?s1 = "s\<lparr>page := wait d delayAfterRestaurant w\<rparr>"
  from q have f: "findMealPeriods d ?s1 = (Inr [], ?s1)"
    using findMealPeriods_result [of d ?s1 els] foldl_addPeriod_none [OF n, of "[]"] by simp
  show ?thesis
    unfolding scrapeRestaurant_def
    by (simp add: andThen_def [of "findRestaurantLink d (name restaurant)"] l
                  andThen_def [of "act (click d (handle link))"] act_def c
                  andThen_def [of "await d delayAfterRestaurant"] await_def
                  andThen_def [of "findMealPeriods d"] f)
qed

lemma scrapeRestaurant_fallback:
  assumes l: "findRestaurantLink d (name restaurant) s = (Inr (Some link), s)"
    and c: "click d (handle link) (page s) = Inr w"
    and q: "querySelectorAll d Clickables (wait d delayAfterRestaurant w) = Inr els"
    and n: "\<forall>el\<in>set els. \<not> detectable el"
  shows "grows (\<lambda>rec. map_of rec ''meal_period'' = Some (Str ''All Day'')) s
           (snd (scrapeRestaurant d restaurant s))"
proof -
  let ?P = "\<lambda>rec. map_of rec ''meal_period'' = Some (Str ''All Day'')"
  let ?s1 = "s\<lparr>page := wait d delayAfterRestaurant w\<rparr>"
  let ?m = "andThen (logTo Log ''No meal periods found, scraping all items...'')
              (\<lambda>_. scrapeCurrentPage d (name restaurant) ''All Day'')"
  have "keeps ?P ?m" by (intro keeps_andThen keeps_logTo keeps_scrapeCurrentPage)
  then have "grows ?P ?s1 (snd (?m ?s1))"
    unfolding keeps_def by (metis prod.collapse)
  moreover have "grows ?P s ?s1" by simp
  ultimately show ?thesis
    unfolding scrapeRestaurant_no_periods [OF assms] by (blast intro: grows_trans)
qed

lemma demo_periods:
  "foldl addPeriod [] (demoClickables 101)
   = [\<lparr>period_name = ''Breakfast'', period_element = demoElement 110 '' Breakfast ''\<rparr>,
      \<lparr>period_name = ''Dinner Specials'', period_element = demoElement 113 ''Dinner Specials''\<rparr>]"
  by code_simp

lemma demo_no_periods: "list_all (\<lambda>el. \<not> detectable el) (demoClickables 100)"
  by code_simp

lemma demo_restaurant_link:
  "findRestaurantLink demoPage ''Bella Union'' demoStart
   = (Inr (Some (demoElement 100 ''Bella Union'')), demoStart)"
  by code_simp

lemma demo_item_rows: "findAllItemRows demoPage s = (Inr [11, 12, 13, 14], s)"
proof -
  have "map fst (filter (\<lambda>hr. isItemRow (snd hr))
          [(11::nat, demoRow 11), (12, demoRow 12), (13, demoRow 13), (14, demoRow 14)])
        = [11, 12, 13, 14]"
    by code_simp
  then show ?thesis
    by (simp add: findAllItemRows_def andThen_def observe_def ret_def demo_prims)
qed

lemma demo_expand: "expandAllCategories demoPage s = (Inr (), s)"
  by (simp add: expandAllCategories_def andThen_def observe_def ret_def demoPage_def)

lemma demo_scrapeCurrentPage:
  "allData (snd (scrapeCurrentPage demoPage rn mp s))
   = allData s @ [demoRecord1 rn mp, demoRecord2 rn mp, demoRecord4 rn mp]"
proof -
  have "scrapeCurrentPage demoPage rn mp s
        = andThen (forEach [11, 12, 13, 14] (itemStep demoPage rn mp)) (\<lambda>_. ret ())
            (s\<lparr>console := console s @ [(Log, ''Found items'')]\<rparr>)"
    unfolding scrapeCurrentPage_def
    by (simp add: andThen_def [of "expandAllCategories demoPage"] demo_expand
                  andThen_def [of "findAllItemRows demoPage"] demo_item_rows
                  andThen_def [of "logTo Log ''Found items''"] logTo_def TEST_MODE_def
             del: forEach.simps)
  then have "snd (scrapeCurrentPage demoPage rn mp s)
             = snd (forEach [11, 12, 13, 14] (itemStep demoPage rn mp)
                      (s\<lparr>console := console s @ [(Log, ''Found items'')]\<rparr>))"
    by (simp add: andThen_def ret_def split: prod.splits sum.splits del: forEach.simps)
  with conjunct1 [OF loop_effect [of "[11, 12, 13, 14]" demoPage rn mp
                          "s\<lparr>console := console s @ [(Log, ''Found items'')]\<rparr>"]]
  have "allData (snd (scrapeCurrentPage demoPage rn mp s))
        = allData s @ successes (outcomes demoPage rn mp [11, 12, 13, 14]
                                   (s\<lparr>console := console s @ [(Log, ''Found items'')]\<rparr>))"
    by (simp del: forEach.simps outcomes.simps)
  then show ?thesis
    unfolding demo_outcomes by (simp add: successes_def List.map_filter_simps)
qed


section \<open>Reading CSV: lemmas\<close>




















section \<open>From the text of the modal to the fields of the record\<close>

lemma label_after:
  assumes "map canonicalize lab = map canonicalize w"
  shows "istarts (lab @ rest) w" "after_label w (lab @ rest) = rest"
proof -
  from assms have "length (map canonicalize lab) = length (map canonicalize w)" by simp
  then have l: "length lab = length w" by simp
  show "istarts (lab @ rest) w" using assms l by (simp add: istarts_def)
  show "after_label w (lab @ rest) = rest" using l by (simp add: after_label_def)
qed

lemma emits_calories:
  assumes "emits d r rn mp s rec rv (Some m)" and "extract_calories (textContent m) = Inr v"
  shows "map_of rec ''calories'' = Some v"
  using emits_found [OF assms(1)] assms(2) by (elim exE conjE) simp

lemma emits_ingredients:
  assumes "emits d r rn mp s rec rv (Some m)" and "extractIngredients (textContent m) = Inr v"
  shows "map_of rec ''ingredients'' = Some (Str v)"
  using emits_found [OF assms(1)] assms(2) by (elim exE conjE) simp

section \<open>Blocks of ingredients\<close>

lemma upto_delim_at: "delim_at p \<Longrightarrow> upto_delim p = []"
  by (cases p) simp_all

lemma trim_between:
  assumes "b \<noteq> []" "\<not> is_space (hd b)" "\<not> is_space (last b)"
    and "\<forall>c\<in>set sp. is_space c" "\<forall>c\<in>set sp'. is_space c"
  shows "trim (sp @ b @ sp') = b"
proof -
  have 1: "dropWhile is_space (sp @ b @ sp') = b @ sp'"
    using assms(1,2,4) by (cases b) (simp_all add: dropWhile_append)
  have 2: "dropWhile is_space (rev sp' @ rev b) = rev b"
    using assms(1,3,5) by (cases "rev b") (simp_all add: dropWhile_append last_rev hd_rev)
  show ?thesis unfolding trim_def 1 by (simp add: 2)
qed

lemma extractIngredients_block:
  assumes "istarts s ''Ingredients:''"
    and "\<not> starts_in (\<lambda>t. istarts t ''Ingredients:'') pre s"
    and "after_label ''Ingredients:'' s = block @ post"
    and "\<not> starts_in delim_at block post" and "delim_at post"
  shows "extractIngredients (pre @ s) = Inr (take 2000 (collapse_ws (trim block)))"
proof -
  have "upto_delim (block @ post) = block"
    using assms(4,5) by (simp add: upto_delim_block upto_delim_at)
  then have "trim (upto_delim (after_label ''Ingredients:'' s)) = trim block"
    unfolding assms(3) by simp
  moreover have "extractIngredients (pre @ s)
        = Inr (take 2000 (collapse_ws (trim (upto_delim (dropWhile is_space
                 (after_label ''Ingredients:'' s))))))"
    using assms(1,2) by (intro extractIngredients_found)
  ultimately show ?thesis unfolding trim_upto_delim by simp
qed

lemma no_delim_chars:
  assumes "\<forall>c\<in>set block. \<not> ieq (CHR ''*'') c \<and> \<not> ieq (CHR ''C'') c \<and> \<not> ieq (CHR ''A'') c
             \<and> \<not> ieq (CHR ''N'') c"
  shows "\<not> starts_in delim_at block post"
  using assms
proof (induction block)
  case Nil
  show ?case by simp
next
  case (Cons c cs)
  then have "\<not> delim_at (c # cs @ post)"
    unfolding delim_at_def by (simp only: istarts_Cons_Cons) simp
  with Cons show ?case by simp
qed

lemma set_join: "set (join sep wds) \<subseteq> set sep \<union> \<Union> (set ` set wds)"
  by (induction sep wds rule: join.induct) auto

lemma length_join:
  "length (join sep wds) = sum_list (map length wds) + length sep * (length wds - 1)"
  by (induction sep wds rule: join.induct) simp_all

lemma hd_join: "w \<noteq> [] \<Longrightarrow> hd (join sep (w # wds)) = hd w"
  by (cases wds) simp_all

lemma join_Nil_iff: "\<forall>w\<in>set wds. w \<noteq> [] \<Longrightarrow> join sep wds = [] \<longleftrightarrow> wds = []"
  by (induction sep wds rule: join.induct) auto

lemma last_join:
  "wds \<noteq> [] \<Longrightarrow> \<forall>w\<in>set wds. w \<noteq> [] \<Longrightarrow> last (join sep wds) = last (last wds)"
proof (induction sep wds rule: join.induct)
  case (1 sep)
  then show ?case by simp
next
  case (2 sep x)
  then show ?case by simp
next
  case (3 sep x y ys)
  then have "join sep (y # ys) \<noteq> []" by (simp add: join_Nil_iff)
  with 3 show ?case by (simp add: last_append)
qed

lemma collapse_join:
  assumes "sep \<noteq> []" "\<forall>c\<in>set sep. is_space c"
    and "\<forall>w\<in>set wds. w \<noteq> [] \<and> (\<forall>c\<in>set w. \<not> is_space c)"
  shows "collapse_ws (join sep wds) = join '' '' wds"
  using assms
proof (induction sep wds rule: join.induct)
  case (1 sep)
  show ?case by simp
next
  case (2 sep x)
  then show ?case using collapse_block [of x "[]"] by simp
next
  case (3 sep x y ys)
  obtain c cs where sep: "sep = c # cs" using "3.prems"(1) by (cases sep) auto
  have y: "y \<noteq> []" "\<not> is_space (hd y)" using "3.prems"(3) by (cases y; simp)+
  have "hd (join sep (y # ys)) = hd y" using y by (simp add: hd_join)
  moreover have "join sep (y # ys) \<noteq> []" using y by (cases ys) simp_all
  ultimately have d: "dropWhile is_space (join sep (y # ys)) = join sep (y # ys)"
    using y by (cases "join sep (y # ys)") simp_all
  have "dropWhile is_space (cs @ join sep (y # ys)) = join sep (y # ys)"
    using "3.prems"(2) sep d by (simp add: dropWhile_append)
  then have "collapse_ws (sep @ join sep (y # ys)) = CHR '' '' # collapse_ws (join sep (y # ys))"
    using "3.prems"(2) sep by simp
  moreover have "collapse_ws (join sep (y # ys)) = join '' '' (y # ys)"
    using 3 by simp
  ultimately show ?case
    using "3.prems"(3) collapse_block [of x "sep @ join sep (y # ys)"] by simp
qed

lemma words_block:
  assumes "wds \<noteq> []" "\<forall>w\<in>set wds. w \<noteq> [] \<and> (\<forall>c\<in>set w. \<not> is_space c)"
    and "sep \<noteq> []" "\<forall>c\<in>set sep. is_space c"
    and "\<forall>c\<in>set sp. is_space c" "\<forall>c\<in>set sp'. is_space c"
  shows "collapse_ws (trim (sp @ join sep wds @ sp')) = join '' '' wds"
proof -
  obtain w wds' where wds: "wds = w # wds'" using assms(1) by (cases wds) auto
  have ne: "join sep wds \<noteq> []" using assms(1,2) by (simp add: join_Nil_iff)
  have h: "\<not> is_space (hd (join sep wds))"
    using assms(2) wds by (cases w) (simp_all add: hd_join)
  have "last wds \<in> set wds" using assms(1) by simp
  then have "last wds \<noteq> []" "\<forall>c\<in>set (last wds). \<not> is_space c" using assms(2) by blast+
  then have "\<not> is_space (last (last wds))" by simp
  then have l: "\<not> is_space (last (join sep wds))"
    using assms(1,2) by (simp add: last_join)
  from trim_between [OF ne h l assms(5,6)] collapse_join [OF assms(3,4,2)]
  show ?thesis by simp
qed

lemma istarts_take: "istarts (u @ s) w = istarts (u @ take (length w) s) w"
  by (auto simp: istarts_def min_def)

lemma starts_in_take:
  "starts_in (\<lambda>t. istarts t w) pre s = starts_in (\<lambda>t. istarts t w) pre (take (length w) s)"
proof (induction pre)
  case Nil
  show ?case by simp
next
  case (Cons c cs)
  from istarts_take [of "c # cs" s w] Cons show ?case by simp
qed

lemma label_first:
  "\<not> starts_in (\<lambda>t. istarts t ''Ingredients:'') ''Nutrition Information ''
        (''Ingredients: '' @ rest)"
proof -
  have "\<not> starts_in (\<lambda>t. istarts t ''Ingredients:'') ''Nutrition Information '' ''Ingredients:''"
    by code_simp
  then show ?thesis by (subst starts_in_take) simp
qed

lemma label_here: "istarts (''Ingredients: '' @ rest) ''Ingredients:''"
proof -
  have "istarts (''Ingredients:'' @ CHR '' '' # rest) ''Ingredients:''"
    by (rule label_after(1)) simp
  then show ?thesis by simp
qed

lemma label_rest: "after_label ''Ingredients:'' (''Ingredients: '' @ rest) = CHR '' '' # rest"
  by (simp add: after_label_def)

lemma no_delim_letters:
  assumes "list_all (\<lambda>c. \<not> ieq (CHR ''*'') c \<and> \<not> ieq (CHR ''C'') c \<and> \<not> ieq (CHR ''A'') c
                        \<and> \<not> ieq (CHR ''N'') c) letters"
    and "set block \<subseteq> set letters"
  shows "\<not> starts_in delim_at block post"
  using assms by (intro no_delim_chars) (auto simp: list_all_iff)

lemma join_letters:
  assumes "list_all (\<lambda>c. c \<in> set letters) sep"
    and "\<forall>w\<in>set wds. list_all (\<lambda>c. c \<in> set letters) w"
  shows "set (join sep wds) \<subseteq> set letters"
proof -
  have "set (join sep wds) \<subseteq> set sep \<union> \<Union> (set ` set wds)" by (rule set_join)
  with assms show ?thesis by (auto simp: list_all_iff)
qed

lemma replicate_snoc_all: "P x \<Longrightarrow> P y \<Longrightarrow> \<forall>w\<in>set (replicate n x @ [y]). P w"
  by auto

section \<open>The whole run: lemmas\<close>

lemma keeps_weaken: "keeps P m \<Longrightarrow> (\<And>x. P x \<Longrightarrow> Q x) \<Longrightarrow> keeps Q m"
  unfolding keeps_def grows_def list_all_iff by blast

lemma keeps_scrapeCurrentPage_any: "keeps (\<lambda>_. True) (scrapeCurrentPage d rn mp)"
  by (rule keeps_weaken [OF keeps_scrapeCurrentPage]) simp

lemma keeps_scrapeRestaurant: "keeps (\<lambda>_. True) (scrapeRestaurant d r)"
  unfolding scrapeRestaurant_def
  by (intro keeps_andThen keeps_findRestaurantLink)
     (auto split: option.splits
           intro!: keeps_andThen keeps_findMealPeriods keeps_forEach keeps_scrapeCurrentPage_any)

lemma keeps_restaurantStep: "keeps (\<lambda>_. True) (restaurantStep d r)"
  unfolding restaurantStep_def
  by (intro keeps_andThen keeps_tryCatch keeps_scrapeRestaurant) simp_all

lemma restaurantStep_effect:
  "allData (snd (restaurantStep d r s))
     = allData s @ drop (length (allData s)) (allData (snd (restaurantStep d r s)))
   \<and> downloads (snd (restaurantStep d r s)) = downloads s"
proof -
  have "grows (\<lambda>_. True) s (snd (restaurantStep d r s))"
    using keeps_restaurantStep [of d r] unfolding keeps_def by (metis prod.collapse)
  then show ?thesis by (auto simp: grows_def)
qed

lemma harvest_effect:
  "allData (snd (forEach rests (restaurantStep d) s)) = allData s @ concat (harvest d rests s)
   \<and> downloads (snd (forEach rests (restaurantStep d) s)) = downloads s"
proof (induction rests arbitrary: s)
  case Nil
  show ?case by (simp add: ret_def)
next
  case (Cons r rests)
  have "forEach (r # rests) (restaurantStep d) s
        = forEach rests (restaurantStep d) (snd (restaurantStep d r s))"
    by (rule forEach_Cons_total) (rule restaurantStep_total)
  with Cons.IH [of "snd (restaurantStep d r s)"] restaurantStep_effect [of d r s]
  show ?case by (simp del: forEach.simps)
qed

lemma length_harvest: "length (harvest d rests s) = length rests"
  by (induction rests arbitrary: s) simp_all

lemma downloadCSV_total: "fst (downloadCSV data s) = Inr ()"
  by (cases data) (simp_all add: downloadCSV_def logTo_def andThen_def)

lemma downloadCSV_allData: "allData (snd (downloadCSV data s)) = allData s"
  by (cases data) (simp_all add: downloadCSV_def logTo_def andThen_def)

lemma downloadCSV_downloads:
  "downloads (snd (downloadCSV data s))
   = downloads s @ (case data of [] \<Rightarrow> [] | first # _ \<Rightarrow> [csvContent first data])"
  by (cases data) (simp_all add: downloadCSV_def logTo_def andThen_def)

lemma scrapeAllRestaurants_run:
  "scrapeAllRestaurants d s
   = (let s1 = snd (forEach RESTAURANTS (restaurantStep d)
                      (s\<lparr>console := console s @ [(Log, ''Starting scrape of restaurants...'')]\<rparr>));
          s2 = s1\<lparr>console := console s1 @ [(Log, ''SCRAPING COMPLETE!'')]\<rparr>
      in downloadCSV (allData s2) s2)"
proof -
  let ?s0 = "s\<lparr>console := console s @ [(Log, ''Starting scrape of restaurants...'')]\<rparr>"
  have "fst (forEach RESTAURANTS (restaurantStep d) ?s0) = Inr ()"
    by (rule forEach_total) (rule restaurantStep_total)
  then obtain s1 where "forEach RESTAURANTS (restaurantStep d) ?s0 = (Inr (), s1)"
    by (cases "forEach RESTAURANTS (restaurantStep d) ?s0") auto
  then show ?thesis
    by (simp add: scrapeAllRestaurants_def andThen_def logTo_def Let_def)
qed

lemma scrapeAllRestaurants_total: "fst (scrapeAllRestaurants d s) = Inr ()"
  unfolding scrapeAllRestaurants_run Let_def by (rule downloadCSV_total)

lemma main_run: "main d s = scrapeAllRestaurants d s"
  using scrapeAllRestaurants_total [of d s]
  by (cases "scrapeAllRestaurants d s") (auto simp: main_def tryCatch_def)

lemma scrapeAllRestaurants_data:
  "allData (snd (scrapeAllRestaurants d s))
   = allData s @ concat (harvest d RESTAURANTS
       (s\<lparr>console := console s @ [(Log, ''Starting scrape of restaurants...'')]\<rparr>))"
  unfolding scrapeAllRestaurants_run Let_def
  by (simp add: downloadCSV_allData conjunct1 [OF harvest_effect] del: forEach.simps)

lemma scrapeAllRestaurants_downloads:
  "downloads (snd (scrapeAllRestaurants d s))
   = downloads s @ (case allData (snd (scrapeAllRestaurants d s)) of
                      [] \<Rightarrow> [] | first # _ \<Rightarrow> [csvContent first (allData (snd (scrapeAllRestaurants d s)))])"
proof -
  let ?s1 = "snd (forEach RESTAURANTS (restaurantStep d)
                    (s\<lparr>console := console s @ [(Log, ''Starting scrape of restaurants...'')]\<rparr>))"
  let ?s2 = "?s1\<lparr>console := console ?s1 @ [(Log, ''SCRAPING COMPLETE!'')]\<rparr>"
  have r: "scrapeAllRestaurants d s = downloadCSV (allData ?s2) ?s2"
    unfolding scrapeAllRestaurants_run Let_def ..
  have a: "allData (snd (scrapeAllRestaurants d s)) = allData ?s2"
    unfolding r by (rule downloadCSV_allData)
  have "downloads ?s2 = downloads s"
    using conjunct2 [OF harvest_effect, of RESTAURANTS d
            "s\<lparr>console := console s @ [(Log, ''Starting scrape of restaurants...'')]\<rparr>"]
    by simp
  then show ?thesis unfolding a unfolding r downloadCSV_downloads by simp
qed

lemma scrapeCurrentPage_run:
  assumes "expandAllCategories d s = (Inr (), s1)" and "fst (findAllItemRows d s1) = Inr rows"
  shows "scrapeCurrentPage d rn mp s
         = forEach rows (itemStep d rn mp) (s1\<lparr>console := console s1 @ [(Log, ''Found items'')]\<rparr>)"
proof -
  have "findAllItemRows d s1 = (Inr rows, s1)"
    using assms(2)
    by (auto simp: findAllItemRows_def andThen_def observe_def ret_def split: sum.splits)
  moreover have "andThen (forEach rows (itemStep d rn mp)) (\<lambda>_. ret ()) t
                 = forEach rows (itemStep d rn mp) t" for t
    using forEach_total [of "itemStep d rn mp" rows t, OF itemStep_total]
    by (cases "forEach rows (itemStep d rn mp) t") (auto simp: andThen_def ret_def)
  ultimately show ?thesis
    using assms(1)
    by (simp add: scrapeCurrentPage_def andThen_def [of "expandAllCategories d"]
                  andThen_def [of "findAllItemRows d"] andThen_def [of "logTo Log ''Found items''"]
                  logTo_def TEST_MODE_def del: forEach.simps)
qed

section \<open>The whole run on the example page\<close>

lemma andThen_unit: "fst (m s) = Inr a \<Longrightarrow> andThen m f s = f a (snd (m s))"
  by (cases "m s") (auto simp: andThen_def)

lemma tryCatch_ok: "fst (m s) = Inr a \<Longrightarrow> tryCatch m h s = m s"
  by (cases "m s") (auto simp: tryCatch_def)

lemma demo_current_run:
  "scrapeCurrentPage demoPage rn mp s
   = forEach [11, 12, 13, 14] (itemStep demoPage rn mp)
       (s\<lparr>console := console s @ [(Log, ''Found items'')]\<rparr>)"
  by (rule scrapeCurrentPage_run) (simp_all add: demo_expand demo_item_rows)

lemma demo_current_total: "fst (scrapeCurrentPage demoPage rn mp s) = Inr ()"
  unfolding demo_current_run by (rule forEach_total) (rule itemStep_total)

lemma demo_current_page: "page (snd (scrapeCurrentPage demoPage rn mp s)) = 0"
proof -
  have "forEach ([11, 12, 13] @ [14]) (itemStep demoPage rn mp) t
        = forEach [14] (itemStep demoPage rn mp) (snd (forEach [11, 12, 13] (itemStep demoPage rn mp) t))"
    for t
    by (rule forEach_append) (rule itemStep_total)
  moreover have "page (snd (forEach [14] (itemStep demoPage rn mp) t)) = 0" for t
    by (simp add: itemStep_def andThen_def tryCatch_def demo_scrape_4 pushItem_def displayName_def
                  demoRecord4_def logTo_def await_def ret_def demo_prims)
  ultimately show ?thesis unfolding demo_current_run by simp
qed

lemma demo_names_trim:
  "trim ''Bella Union'' = ''Bella Union''" "trim ''Bseisu Coffee Bar'' = ''Bseisu Coffee Bar''"
  "trim ''Cafe'' = ''Cafe''"
  by code_simp+

lemma demo_link:
  "page s \<noteq> 101 \<Longrightarrow>
   findRestaurantLink demoPage nm s
   = (Inr (if nm = ''Bella Union'' then Some (demoElement 100 ''Bella Union'')
           else if nm = ''Bseisu Coffee Bar'' then Some (demoElement 102 ''Bseisu Coffee Bar'')
           else if nm = ''Cafe'' then Some (demoElement 101 ''Cafe'')
           else None), s)"
  by (auto simp: findRestaurantLink_def andThen_def observe_def ret_def demo_prims demoClickables_def
                 demo_names_trim)

lemma demo_periods_at:
  "findMealPeriods demoPage s
   = (Inr (if page s = 101
           then [\<lparr>period_name = ''Breakfast'', period_element = demoElement 110 '' Breakfast ''\<rparr>,
                 \<lparr>period_name = ''Dinner Specials'',
                  period_element = demoElement 113 ''Dinner Specials''\<rparr>]
           else []), s)"
proof (cases "page s = 101")
  case True
  then show ?thesis
    by (simp add: findMealPeriods_result [of demoPage s "demoClickables 101"] demo_prims demo_periods)
next
  case False
  have "demoClickables (page s) = demoClickables 100" using False by (simp add: demoClickables_def)
  moreover have "foldl addPeriod [] (demoClickables 100) = []"
    using demo_no_periods by (intro foldl_addPeriod_none) (simp add: list_all_iff)
  ultimately show ?thesis
    using False
    by (simp add: findMealPeriods_result [of demoPage s "demoClickables 100"] demo_prims)
qed

lemma demo_restaurant_bella:
  assumes "page s = 0"
  shows "scrapeRestaurant demoPage \<lparr>name = ''Bella Union'', unitOid = u\<rparr> s
         = scrapeCurrentPage demoPage ''Bella Union'' ''All Day''
             (s\<lparr>page := 100,
                console := console s @ [(Log, ''No meal periods found, scraping all items...'')]\<rparr>)"
  using assms
  by (simp add: scrapeRestaurant_def andThen_def [of "findRestaurantLink demoPage _"] demo_link
                andThen_def [of "act _"] act_def demo_prims andThen_def [of "await _ _"] await_def
                andThen_def [of "findMealPeriods _"] demo_periods_at
                andThen_def [of "logTo _ _"] logTo_def)

lemma demo_restaurant_bseisu:
  assumes "page s = 0"
  shows "scrapeRestaurant demoPage \<lparr>name = ''Bseisu Coffee Bar'', unitOid = u\<rparr> s
         = (Inl (Thrown ''element is detached''), s)"
  using assms
  by (simp add: scrapeRestaurant_def andThen_def [of "findRestaurantLink demoPage _"] demo_link
                andThen_def [of "act _"] act_def demo_prims)

lemma demo_restaurant_missing:
  assumes "page s = 0" "nm \<noteq> ''Bella Union''" "nm \<noteq> ''Bseisu Coffee Bar''" "nm \<noteq> ''Cafe''"
  shows "scrapeRestaurant demoPage \<lparr>name = nm, unitOid = u\<rparr> s
         = (Inr (), s\<lparr>console := console s @ [(Warn, ''Could not find link for '' @ nm)]\<rparr>)"
  using assms
  by (simp add: scrapeRestaurant_def andThen_def [of "findRestaurantLink demoPage _"] demo_link
                logTo_def)

lemma andThen_unit0: "fst (m s) = Inr () \<Longrightarrow> andThen m f s = f () (snd (m s))"
  by (rule andThen_unit)

lemma demo_restaurant_cafe:
  assumes "page s = 0"
  shows "fst (scrapeRestaurant demoPage \<lparr>name = ''Cafe'', unitOid = u\<rparr> s) = Inr ()"
    "page (snd (scrapeRestaurant demoPage \<lparr>name = ''Cafe'', unitOid = u\<rparr> s)) = 0"
    "allData (snd (scrapeRestaurant demoPage \<lparr>name = ''Cafe'', unitOid = u\<rparr> s))
     = allData s @ [demoRecord1 ''Cafe'' ''Breakfast'', demoRecord2 ''Cafe'' ''Breakfast'',
                    demoRecord4 ''Cafe'' ''Breakfast'', demoRecord1 ''Cafe'' ''Dinner Specials'',
                    demoRecord2 ''Cafe'' ''Dinner Specials'', demoRecord4 ''Cafe'' ''Dinner Specials'']"
  using assms
  by (simp_all add: scrapeRestaurant_def andThen_def [of "findRestaurantLink demoPage _"] demo_link
                andThen_def [of "findMealPeriods _"] demo_periods_at andThen_unit0
                logTo_def act_def await_def demo_prims ret_def
                demo_current_total demo_current_page demo_scrapeCurrentPage)

lemma demo_restaurantStep:
  assumes "page s = 0"
  shows "page (snd (restaurantStep demoPage \<lparr>name = nm, unitOid = u\<rparr> s)) = 0"
    "allData (snd (restaurantStep demoPage \<lparr>name = nm, unitOid = u\<rparr> s))
     = allData s
       @ (if nm = ''Bella Union''
          then [demoRecord1 nm ''All Day'', demoRecord2 nm ''All Day'', demoRecord4 nm ''All Day'']
          else if nm = ''Cafe''
          then [demoRecord1 nm ''Breakfast'', demoRecord2 nm ''Breakfast'',
                demoRecord4 nm ''Breakfast'', demoRecord1 nm ''Dinner Specials'',
                demoRecord2 nm ''Dinner Specials'', demoRecord4 nm ''Dinner Specials'']
          else [])"
proof -
  let ?r = "\<lparr>name = nm, unitOid = u\<rparr>"
  have p: "page (s\<lparr>console := console s @ [(Log, n)]\<rparr>) = 0" for n using assms by simp
  have step: "restaurantStep demoPage \<lparr>name = n, unitOid = u\<rparr> s
              = andThen (tryCatch (scrapeRestaurant demoPage \<lparr>name = n, unitOid = u\<rparr>)
                           (\<lambda>error. logTo Err (''Error scraping '' @ n @ '': '' @ message error)))
                  (\<lambda>_. await demoPage delayAfterRestaurant)
                  (s\<lparr>console := console s @ [(Log, n)]\<rparr>)" for n
    by (simp add: restaurantStep_def andThen_def [of "logTo Log n"] logTo_def)
  have "page (snd (restaurantStep demoPage ?r s)) = 0
    \<and> allData (snd (restaurantStep demoPage ?r s))
     = allData s
       @ (if nm = ''Bella Union''
          then [demoRecord1 nm ''All Day'', demoRecord2 nm ''All Day'', demoRecord4 nm ''All Day'']
          else if nm = ''Cafe''
          then [demoRecord1 nm ''Breakfast'', demoRecord2 nm ''Breakfast'',
                demoRecord4 nm ''Breakfast'', demoRecord1 nm ''Dinner Specials'',
                demoRecord2 nm ''Dinner Specials'', demoRecord4 nm ''Dinner Specials'']
          else [])"
  proof -
  consider "nm = ''Bella Union''" | "nm = ''Bseisu Coffee Bar''" | "nm = ''Cafe''"
    | "nm \<noteq> ''Bella Union''" "nm \<noteq> ''Bseisu Coffee Bar''" "nm \<noteq> ''Cafe''"
    by blast
  then show ?thesis
  proof cases
    case 1
    have "fst (scrapeRestaurant demoPage \<lparr>name = ''Bella Union'', unitOid = u\<rparr>
                 (s\<lparr>console := console s @ [(Log, ''Bella Union'')]\<rparr>)) = Inr ()"
      unfolding demo_restaurant_bella [OF p] by (rule demo_current_total)
    then show ?thesis
      unfolding 1 step
      by (simp add: andThen_unit0 tryCatch_ok await_def demo_prims demo_restaurant_bella [OF p]
                    demo_current_page demo_scrapeCurrentPage)
  next
    case 2
    show ?thesis
      unfolding 2 step
      by (simp add: andThen_def tryCatch_def demo_restaurant_bseisu [OF p] logTo_def await_def
                    demo_prims assms)
  next
    case 3
    show ?thesis
      unfolding 3 step
      by (simp add: andThen_unit0 tryCatch_ok await_def demo_prims demo_restaurant_cafe [OF p])
  next
    case 4
    then show ?thesis
      unfolding step
      by (simp add: andThen_def tryCatch_def demo_restaurant_missing [OF p] await_def
                    demo_prims assms)
  qed
  qed
  then show "page (snd (restaurantStep demoPage ?r s)) = 0"
    "allData (snd (restaurantStep demoPage ?r s))
     = allData s
       @ (if nm = ''Bella Union''
          then [demoRecord1 nm ''All Day'', demoRecord2 nm ''All Day'', demoRecord4 nm ''All Day'']
          else if nm = ''Cafe''
          then [demoRecord1 nm ''Breakfast'', demoRecord2 nm ''Breakfast'',
                demoRecord4 nm ''Breakfast'', demoRecord1 nm ''Dinner Specials'',
                demoRecord2 nm ''Dinner Specials'', demoRecord4 nm ''Dinner Specials'']
          else [])"
    by blast+
qed

lemma demo_harvest_any:
  assumes "page s = 0"
  shows "harvest demoPage rests s
         = map (\<lambda>r. if name r = ''Bella Union''
                     then [demoRecord1 (name r) ''All Day'', demoRecord2 (name r) ''All Day'',
                           demoRecord4 (name r) ''All Day'']
                     else if name r = ''Cafe''
                     then [demoRecord1 (name r) ''Breakfast'', demoRecord2 (name r) ''Breakfast'',
                           demoRecord4 (name r) ''Breakfast'',
                           demoRecord1 (name r) ''Dinner Specials'',
                           demoRecord2 (name r) ''Dinner Specials'',
                           demoRecord4 (name r) ''Dinner Specials'']
                     else []) rests"
  using assms
proof (induction rests arbitrary: s)
  case Nil
  show ?case by simp
next
  case (Cons r rests)
  obtain nm u where r: "r = \<lparr>name = nm, unitOid = u\<rparr>" by (cases r) simp
  from demo_restaurantStep [OF Cons.prems, of nm u]
  have p: "page (snd (restaurantStep demoPage r s)) = 0"
    and a: "allData (snd (restaurantStep demoPage r s))
     = allData s
       @ (if nm = ''Bella Union''
          then [demoRecord1 nm ''All Day'', demoRecord2 nm ''All Day'', demoRecord4 nm ''All Day'']
          else if nm = ''Cafe''
          then [demoRecord1 nm ''Breakfast'', demoRecord2 nm ''Breakfast'',
                demoRecord4 nm ''Breakfast'', demoRecord1 nm ''Dinner Specials'',
                demoRecord2 nm ''Dinner Specials'', demoRecord4 nm ''Dinner Specials'']
          else [])"
    unfolding r by blast+
  from Cons.IH [OF p] a show ?case by (simp add: r)
qed

lemma demo_harvest:
  "harvest demoPage RESTAURANTS (demoStart\<lparr>console := c\<rparr>)
         = [[demoRecord1 ''Bella Union'' ''All Day'', demoRecord2 ''Bella Union'' ''All Day'',
             demoRecord4 ''Bella Union'' ''All Day''],
            [], [],
            [demoRecord1 ''Cafe'' ''Breakfast'', demoRecord2 ''Cafe'' ''Breakfast'',
             demoRecord4 ''Cafe'' ''Breakfast'', demoRecord1 ''Cafe'' ''Dinner Specials'',
             demoRecord2 ''Cafe'' ''Dinner Specials'', demoRecord4 ''Cafe'' ''Dinner Specials''],
            [], [], [], [], [], [], [], [], [], [], [], [], [], [], [], [], [], [], [], [], [],
            [], []]"
proof -
  have "page (demoStart\<lparr>console := c\<rparr>) = 0" by (simp add: demoStart_def)
  from demo_harvest_any [OF this, of RESTAURANTS] show ?thesis
    by (simp add: RESTAURANTS_def)
qed


section \<open>The calorie chain\<close>

text \<open>
  C2 (as amended).  The calorie patterns are tried in the order of the source, the pattern
  without white space first, and they find the label \<^verbatim>\<open>Calories\<close> in any letter case.  Let
  \<open>lab\<close> be the label in some letter case and \<open>n\<close> a numeral after which no further digit
  follows.  When the first place of the modal text where the label is directly followed by
  a digit reads \<open>lab n\<close>, as in \<^verbatim>\<open>Calories123\<close>, the result is \<open>n\<close>, here \<^verbatim>\<open>123\<close>: the pattern
  without white space wins, whatever stands before that place, also an earlier
  \<^verbatim>\<open>Calories  456\<close>.  When the label is nowhere directly followed by a digit and the first
  place where it is followed by white space and a digit reads \<open>lab\<close>, white space, \<open>n\<close>, as
  in \<^verbatim>\<open>Calories  456\<close>, the result is \<open>n\<close>, here \<^verbatim>\<open>456\<close>.  When the label occurs in no letter
  case, the result is the empty string.  The result is what a record emitted with this
  modal text holds in its field \<^verbatim>\<open>calories\<close>.
\<close>

theorem calories_fallback:
  "(map canonicalize lab = map canonicalize ''Calories''
      \<and> n \<noteq> [] \<and> (\<forall>c\<in>set n. is_digit c)
      \<and> \<not> starts_in cal_digit pre (lab @ n @ post) \<and> \<not> starts_digit post
      \<longrightarrow> extract_calories (pre @ lab @ n @ post) = Inr (Str n))
   \<and> (map canonicalize lab = map canonicalize ''Calories''
      \<and> sp \<noteq> [] \<and> (\<forall>c\<in>set sp. is_space c) \<and> n \<noteq> [] \<and> (\<forall>c\<in>set n. is_digit c)
      \<and> \<not> occurs cal_digit (pre @ lab @ sp @ n @ post)
      \<and> \<not> starts_in cal_space_digit pre (lab @ sp @ n @ post) \<and> \<not> starts_digit post
      \<longrightarrow> extract_calories (pre @ lab @ sp @ n @ post) = Inr (Str n))
   \<and> (\<not> occurs (\<lambda>s. istarts s ''Calories'') t \<longrightarrow> extract_calories t = Inr (Str []))
   \<and> (emits d r rn mp s rec rv (Some m) \<and> extract_calories (textContent m) = Inr v
      \<longrightarrow> map_of rec ''calories'' = Some v)"
proof (intro conjI impI)
  assume a: "map canonicalize lab = map canonicalize ''Calories''
      \<and> n \<noteq> [] \<and> (\<forall>c\<in>set n. is_digit c)
      \<and> \<not> starts_in cal_digit pre (lab @ n @ post) \<and> \<not> starts_digit post"
  then have d: "\<forall>c\<in>set n. is_digit c" and l: "map canonicalize lab = map canonicalize ''Calories''"
    by simp_all
  have al: "after_label ''Calories'' (lab @ n @ post) = n @ post"
    and st: "istarts (lab @ n @ post) ''Calories''"
    using label_after [OF l] by simp_all
  have "starts_digit (n @ post)" using a by (cases n) (simp_all add: starts_digit_def)
  then have c: "cal_digit (lab @ n @ post)" unfolding cal_digit_def al using st by simp
  have "takeWhile is_digit (after_label ''Calories'' (lab @ n @ post)) = n"
    unfolding al using a takeWhile_digits_append [OF d] by simp
  with a c have "extractMatch (pre @ lab @ n @ post) re_calories1 = Inr n"
    using trim_digits [OF d] by (simp add: extractMatch_cal1_found)
  with a show "extract_calories (pre @ lab @ n @ post) = Inr (Str n)"
    by (simp add: extract_calories_def bindE_def)
next
  assume a: "map canonicalize lab = map canonicalize ''Calories''
      \<and> sp \<noteq> [] \<and> (\<forall>c\<in>set sp. is_space c) \<and> n \<noteq> [] \<and> (\<forall>c\<in>set n. is_digit c)
      \<and> \<not> occurs cal_digit (pre @ lab @ sp @ n @ post)
      \<and> \<not> starts_in cal_space_digit pre (lab @ sp @ n @ post) \<and> \<not> starts_digit post"
  then have d: "\<forall>c\<in>set n. is_digit c" and l: "map canonicalize lab = map canonicalize ''Calories''"
    by simp_all
  have al: "after_label ''Calories'' (lab @ sp @ n @ post) = sp @ n @ post"
    and st: "istarts (lab @ sp @ n @ post) ''Calories''"
    using label_after [OF l] by simp_all
  obtain c cs where n: "n = c # cs" using a by (cases n) auto
  then have dc: "is_digit c" using d by simp
  then have "\<not> is_space c" using space_not_digit by blast
  then have dw: "dropWhile is_space (sp @ n @ post) = n @ post"
    using a n by (simp add: dropWhile_append)
  have sd: "starts_digit (n @ post)" using n dc by (simp add: starts_digit_def)
  have ss: "starts_space (sp @ n @ post)" using a by (cases sp) (simp_all add: starts_space_def)
  have c: "cal_space_digit (lab @ sp @ n @ post)"
    unfolding cal_space_digit_def al dw using st sd ss by simp
  have "takeWhile is_digit (dropWhile is_space (after_label ''Calories'' (lab @ sp @ n @ post))) = n"
    unfolding al dw using a takeWhile_digits_append [OF d] by simp
  with a c have "extractMatch (pre @ lab @ sp @ n @ post) re_calories2 = Inr n"
    using trim_digits [OF d] by (simp add: extractMatch_cal2_found)
  moreover from a have "extractMatch (pre @ lab @ sp @ n @ post) re_calories1 = Inr []"
    by (simp add: extractMatch_cal1_None)
  ultimately show "extract_calories (pre @ lab @ sp @ n @ post) = Inr (Str n)"
    using a by (simp add: extract_calories_def bindE_def)
next
  assume "\<not> occurs (\<lambda>s. istarts s ''Calories'') t"
  from no_calories_all_fail [OF this] show "extract_calories t = Inr (Str [])"
    by (simp add: extract_calories_def extractMatch_def bindE_def)
next
  assume "emits d r rn mp s rec rv (Some m) \<and> extract_calories (textContent m) = Inr v"
  then show "map_of rec ''calories'' = Some v" by (blast intro: emits_calories)
qed

theorem calories_fallback_witness:
  "extract_calories ''Nutrition Information Calories  456 Calories123 Total Fat 9g'' = Inr (Str ''123'')
   \<and> extract_calories ''Nutrition Information Calories  456 Total Fat 9g'' = Inr (Str ''456'')
   \<and> extract_calories ''Nutrition Information Total Fat 9g'' = Inr (Str [])
   \<and> emits demoPage 11 ''Bella Union'' ''All Day'' demoStart
        (demoRecord1 ''Bella Union'' ''All Day'') (demoRow 11)
        (Some (demoElement 200 (demoModalText 11)))
   \<and> extract_calories (demoModalText 11) = Inr (Str ''250'')
   \<and> map_of (demoRecord1 ''Bella Union'' ''All Day'') ''calories'' = Some (Str ''250'')"
proof -
  have l: "map canonicalize ''Calories'' = map canonicalize ''Calories''" ..
  have 1: "''123'' \<noteq> [] \<and> (\<forall>c\<in>set ''123''. is_digit c)
           \<and> \<not> starts_in cal_digit ''Nutrition Information Calories  456 ''
                  (''Calories'' @ ''123'' @ '' Total Fat 9g'')
           \<and> \<not> starts_digit '' Total Fat 9g''"
    by code_simp
  have 2: "''  '' \<noteq> [] \<and> (\<forall>c\<in>set ''  ''. is_space c)
           \<and> ''456'' \<noteq> [] \<and> (\<forall>c\<in>set ''456''. is_digit c)
           \<and> \<not> occurs cal_digit (''Nutrition Information '' @ ''Calories'' @ ''  '' @ ''456''
                                    @ '' Total Fat 9g'')
           \<and> \<not> starts_in cal_space_digit ''Nutrition Information ''
                  (''Calories'' @ ''  '' @ ''456'' @ '' Total Fat 9g'')
           \<and> \<not> starts_digit '' Total Fat 9g''"
    by code_simp
  have 3: "\<not> occurs (\<lambda>s. istarts s ''Calories'') ''Nutrition Information Total Fat 9g''"
    by code_simp
  have 4: "emits demoPage 11 ''Bella Union'' ''All Day'' demoStart
             (demoRecord1 ''Bella Union'' ''All Day'') (demoRow 11)
             (Some (demoElement 200 (demoModalText 11)))"
    by (rule demo_emits_1)
  have 5: "extract_calories (textContent (demoElement 200 (demoModalText 11))) = Inr (Str ''250'')"
    unfolding demo_prims by code_simp
  from l 1 calories_fallback [where lab = "''Calories''" and n = "''123''"
         and pre = "''Nutrition Information Calories  456 ''" and post = "'' Total Fat 9g''"]
  have "extract_calories (''Nutrition Information Calories  456 '' @ ''Calories'' @ ''123''
                          @ '' Total Fat 9g'') = Inr (Str ''123'')"
    by blast
  moreover from l 2 calories_fallback [where lab = "''Calories''" and n = "''456''"
         and sp = "''  ''" and pre = "''Nutrition Information ''" and post = "'' Total Fat 9g''"]
  have "extract_calories (''Nutrition Information '' @ ''Calories'' @ ''  '' @ ''456''
                          @ '' Total Fat 9g'') = Inr (Str ''456'')"
    by blast
  moreover from 3 calories_fallback [where t = "''Nutrition Information Total Fat 9g''"]
  have "extract_calories ''Nutrition Information Total Fat 9g'' = Inr (Str [])" by blast
  moreover from 4 5 calories_fallback [where d = demoPage and r = 11 and rn = "''Bella Union''"
         and mp = "''All Day''" and s = demoStart and rec = "demoRecord1 ''Bella Union'' ''All Day''"
         and rv = "demoRow 11" and m = "demoElement 200 (demoModalText 11)" and v = "Str ''250''"]
  have "map_of (demoRecord1 ''Bella Union'' ''All Day'') ''calories'' = Some (Str ''250'')"
    by blast
  ultimately show ?thesis using 4 5 by (simp add: demo_prims)
qed

theorem calories_fallback_counterexample:
  "includes_str ''Nutrition Information calories 77 Total Fat 9g'' ''Nutrition Information''
   \<and> \<not> includes_str ''Nutrition Information calories 77 Total Fat 9g'' ''Calories''
   \<and> extract_calories ''Nutrition Information calories 77 Total Fat 9g'' = Inr (Str ''77'')"
  by code_simp

section \<open>Ingredients\<close>

text \<open>
  C4 (as amended).  When the first \<^verbatim>\<open>Ingredients:\<close> label of the modal text (in any letter
  case) begins the text \<open>s\<close>, the ingredients are the text after that label up to the first
  place where an asterisk, \<^verbatim>\<open>Contains:\<close>, \<^verbatim>\<open>Allergen\<close> or \<^verbatim>\<open>Nutrition\<close> begins (these
  too in any letter case, and also inside a word) or the text ends, with white space removed
  at both ends, every run of white space inside replaced by one space, and cut to the first
  2000 characters.  So a block after the label in which no delimiter begins, and after which
  one begins or the text ends, yields as many characters as remain after the trimming and
  collapsing, but at most 2000.  In particular a block of words that are separated by runs
  of white space yields the words separated by single spaces, cut to 2000 characters: a
  block of 3000 characters whose words are separated by single spaces yields exactly its
  first 2000 characters.  The result is what a record emitted with this modal text holds in
  its field \<^verbatim>\<open>ingredients\<close>.
\<close>

theorem ingredients_extraction:
  "(istarts s ''Ingredients:'' \<and> \<not> starts_in (\<lambda>t. istarts t ''Ingredients:'') pre s
      \<longrightarrow> extractIngredients (pre @ s)
          = Inr (take 2000 (collapse_ws (trim (upto_delim (after_label ''Ingredients:'' s))))))
   \<and> (istarts s ''Ingredients:'' \<and> \<not> starts_in (\<lambda>t. istarts t ''Ingredients:'') pre s
      \<and> after_label ''Ingredients:'' s = block @ post
      \<and> \<not> starts_in delim_at block post \<and> delim_at post
      \<longrightarrow> extractIngredients (pre @ s) = Inr (take 2000 (collapse_ws (trim block)))
          \<and> length (take 2000 (collapse_ws (trim block)))
            = min 2000 (length (collapse_ws (trim block))))
   \<and> (istarts s ''Ingredients:'' \<and> \<not> starts_in (\<lambda>t. istarts t ''Ingredients:'') pre s
      \<and> after_label ''Ingredients:'' s = sp @ join sep wds @ sp' @ post
      \<and> (\<forall>c\<in>set sp. is_space c) \<and> (\<forall>c\<in>set sp'. is_space c)
      \<and> sep \<noteq> [] \<and> (\<forall>c\<in>set sep. is_space c)
      \<and> wds \<noteq> [] \<and> (\<forall>w\<in>set wds. w \<noteq> [] \<and> (\<forall>c\<in>set w. \<not> is_space c))
      \<and> \<not> starts_in delim_at (sp @ join sep wds @ sp') post \<and> delim_at post
      \<longrightarrow> extractIngredients (pre @ s) = Inr (take 2000 (join '' '' wds))
          \<and> (2000 \<le> length (join '' '' wds) \<longrightarrow> length (take 2000 (join '' '' wds)) = 2000))
   \<and> (emits d r rn mp st rec rv (Some m) \<and> extractIngredients (textContent m) = Inr v
      \<longrightarrow> map_of rec ''ingredients'' = Some (Str v))"
proof (intro conjI impI)
  assume "istarts s ''Ingredients:'' \<and> \<not> starts_in (\<lambda>t. istarts t ''Ingredients:'') pre s"
  then show "extractIngredients (pre @ s)
          = Inr (take 2000 (collapse_ws (trim (upto_delim (after_label ''Ingredients:'' s)))))"
    by (simp add: extractIngredients_found trim_upto_delim)
next
  assume "istarts s ''Ingredients:'' \<and> \<not> starts_in (\<lambda>t. istarts t ''Ingredients:'') pre s
      \<and> after_label ''Ingredients:'' s = block @ post
      \<and> \<not> starts_in delim_at block post \<and> delim_at post"
  then have h: "istarts s ''Ingredients:''"
    "\<not> starts_in (\<lambda>t. istarts t ''Ingredients:'') pre s"
    "after_label ''Ingredients:'' s = block @ post"
    "\<not> starts_in delim_at block post" "delim_at post"
    by blast+
  show "extractIngredients (pre @ s) = Inr (take 2000 (collapse_ws (trim block)))"
    by (rule extractIngredients_block [OF h])
next
  show "length (take 2000 (collapse_ws (trim block))) = min 2000 (length (collapse_ws (trim block)))"
    by simp
next
  assume a: "istarts s ''Ingredients:'' \<and> \<not> starts_in (\<lambda>t. istarts t ''Ingredients:'') pre s
      \<and> after_label ''Ingredients:'' s = sp @ join sep wds @ sp' @ post
      \<and> (\<forall>c\<in>set sp. is_space c) \<and> (\<forall>c\<in>set sp'. is_space c)
      \<and> sep \<noteq> [] \<and> (\<forall>c\<in>set sep. is_space c)
      \<and> wds \<noteq> [] \<and> (\<forall>w\<in>set wds. w \<noteq> [] \<and> (\<forall>c\<in>set w. \<not> is_space c))
      \<and> \<not> starts_in delim_at (sp @ join sep wds @ sp') post \<and> delim_at post"
  then have h: "istarts s ''Ingredients:''"
    "\<not> starts_in (\<lambda>t. istarts t ''Ingredients:'') pre s"
    "after_label ''Ingredients:'' s = (sp @ join sep wds @ sp') @ post"
    "\<not> starts_in delim_at (sp @ join sep wds @ sp') post" "delim_at post"
    by simp_all
  from a have w: "wds \<noteq> []" "\<forall>w\<in>set wds. w \<noteq> [] \<and> (\<forall>c\<in>set w. \<not> is_space c)"
    "sep \<noteq> []" "\<forall>c\<in>set sep. is_space c" "\<forall>c\<in>set sp. is_space c" "\<forall>c\<in>set sp'. is_space c"
    by blast+
  have "extractIngredients (pre @ s)
             = Inr (take 2000 (collapse_ws (trim (sp @ join sep wds @ sp'))))"
    by (rule extractIngredients_block [OF h])
  moreover have "collapse_ws (trim (sp @ join sep wds @ sp')) = join '' '' wds"
    by (rule words_block [OF w])
  ultimately show "extractIngredients (pre @ s) = Inr (take 2000 (join '' '' wds))" by simp
next
  assume "2000 \<le> length (join '' '' wds)"
  then show "length (take 2000 (join '' '' wds)) = 2000" by simp
next
  assume "emits d r rn mp st rec rv (Some m) \<and> extractIngredients (textContent m) = Inr v"
  then show "map_of rec ''ingredients'' = Some (Str v)" by (blast intro: emits_ingredients)
qed

theorem ingredients_extraction_witness:
  "extractIngredients (''Nutrition Information Protein 5g INGREDIENTS:  water,   salt ''
                       @ [CHR 0x0A] @ '' sugar * Contains: soy'')
     = Inr ''water, salt sugar''
   \<and> length (join '' '' (replicate 499 ''flour'' @ [''flours''])) = 3000
   \<and> extractIngredients (''Nutrition Information Ingredients: ''
                         @ join '' '' (replicate 499 ''flour'' @ [''flours'']) @ ''*'')
     = Inr (take 2000 (join '' '' (replicate 499 ''flour'' @ [''flours''])))
   \<and> length (take 2000 (join '' '' (replicate 499 ''flour'' @ [''flours'']))) = 2000
   \<and> emits demoPage 11 ''Bella Union'' ''All Day'' demoStart
        (demoRecord1 ''Bella Union'' ''All Day'') (demoRow 11)
        (Some (demoElement 200 (demoModalText 11)))
   \<and> map_of (demoRecord1 ''Bella Union'' ''All Day'') ''ingredients'' = Some (Str [])"
proof -
  let ?pre = "''Nutrition Information Protein 5g ''"
  let ?s = "''INGREDIENTS:  water,   salt '' @ [CHR 0x0A] @ '' sugar * Contains: soy''"
  let ?b = "''  water,   salt '' @ [CHR 0x0A] @ '' sugar ''"
  have 1: "istarts ?s ''Ingredients:'' \<and> \<not> starts_in (\<lambda>t. istarts t ''Ingredients:'') ?pre ?s"
    by code_simp
  have 2: "take 2000 (collapse_ws (trim (upto_delim (after_label ''Ingredients:'' ?s))))
           = ''water, salt sugar''"
    by code_simp
  have 3: "istarts ?s ''Ingredients:'' \<and> \<not> starts_in (\<lambda>t. istarts t ''Ingredients:'') ?pre ?s
           \<and> after_label ''Ingredients:'' ?s = ?b @ ''* Contains: soy''
           \<and> \<not> starts_in delim_at ?b ''* Contains: soy'' \<and> delim_at ''* Contains: soy''"
    by code_simp
  have 4: "take 2000 (collapse_ws (trim ?b)) = ''water, salt sugar''" by code_simp
  let ?wds = "replicate 499 ''flour'' @ [''flours'']"
  let ?B = "join '' '' ?wds"
  let ?p = "''Nutrition Information ''"
  let ?t = "''Ingredients: '' @ ?B @ ''*''"
  have len: "length (join '' '' ?wds) = 3000" by (simp add: length_join sum_list_replicate)
  have k: "list_all (\<lambda>c. \<not> ieq (CHR ''*'') c \<and> \<not> ieq (CHR ''C'') c \<and> \<not> ieq (CHR ''A'') c
                         \<and> \<not> ieq (CHR ''N'') c) '' flours''"
    by code_simp
  have "set ?B \<subseteq> set '' '' \<union> \<Union> (set ` set ?wds)" by (rule set_join)
  then have sub: "set ('' '' @ ?B @ []) \<subseteq> set '' flours''" by auto
  have h: "istarts ?t ''Ingredients:''"
    "\<not> starts_in (\<lambda>t. istarts t ''Ingredients:'') ?p ?t"
    "after_label ''Ingredients:'' ?t = '' '' @ ?B @ [] @ ''*''"
    "\<forall>c\<in>set '' ''. is_space c" "\<forall>c\<in>set []. is_space c" "'' '' \<noteq> []"
    "?wds \<noteq> []" "\<forall>w\<in>set ?wds. w \<noteq> [] \<and> (\<forall>c\<in>set w. \<not> is_space c)"
    "\<not> starts_in delim_at ('' '' @ ?B @ []) ''*''" "delim_at ''*''"
             apply (rule label_here)
            apply (rule label_first)
           apply (subst label_rest, simp)
          apply (simp add: is_space_def)
         apply simp
        apply simp
       apply simp
      apply (auto simp: is_space_def)[1]
     apply (rule no_delim_letters [OF k sub])
    apply (simp add: delim_at_def istarts_Cons_Cons ieq_def)
    done
  have h3: "istarts ?t ''Ingredients:'' \<and> \<not> starts_in (\<lambda>t. istarts t ''Ingredients:'') ?p ?t
      \<and> after_label ''Ingredients:'' ?t = '' '' @ ?B @ [] @ ''*''
      \<and> (\<forall>c\<in>set '' ''. is_space c) \<and> (\<forall>c\<in>set []. is_space c)
      \<and> '' '' \<noteq> [] \<and> (\<forall>c\<in>set '' ''. is_space c)
      \<and> ?wds \<noteq> [] \<and> (\<forall>w\<in>set ?wds. w \<noteq> [] \<and> (\<forall>c\<in>set w. \<not> is_space c))
      \<and> \<not> starts_in delim_at ('' '' @ ?B @ []) ''*'' \<and> delim_at ''*''"
    by (intro conjI) (rule h)+
  have 10: "emits demoPage 11 ''Bella Union'' ''All Day'' demoStart
             (demoRecord1 ''Bella Union'' ''All Day'') (demoRow 11)
             (Some (demoElement 200 (demoModalText 11)))"
    by (rule demo_emits_1)
  have "extractIngredients (demoModalText 11) = Inr []" by code_simp
  then have 11: "extractIngredients (textContent (demoElement 200 (demoModalText 11))) = Inr []"
    by (simp only: demo_prims)
  note T1 = ingredients_extraction [where s = ?s and pre = ?pre and block = ?b
              and post = "''* Contains: soy''"]
  have a: "extractIngredients (?pre @ ?s)
           = Inr (take 2000 (collapse_ws (trim (upto_delim (after_label ''Ingredients:'' ?s)))))"
    by (rule T1 [THEN conjunct1, THEN mp, OF 1])
  have b: "extractIngredients (?pre @ ?s) = Inr (take 2000 (collapse_ws (trim ?b)))"
    by (rule T1 [THEN conjunct2, THEN conjunct1, THEN mp, OF 3, THEN conjunct1])
  note T3 = ingredients_extraction [where s = ?t and pre = ?p and sp = "'' ''"
         and sep = "'' ''" and wds = ?wds and sp' = "[]" and post = "''*''"]
  have c: "extractIngredients (?p @ ?t) = Inr (take 2000 (join '' '' ?wds))"
    by (rule T3 [THEN conjunct2, THEN conjunct2, THEN conjunct1, THEN mp, OF h3, THEN conjunct1])
  note T4 = ingredients_extraction [where d = demoPage and r = 11 and rn = "''Bella Union''"
         and mp = "''All Day''" and st = demoStart and rec = "demoRecord1 ''Bella Union'' ''All Day''"
         and rv = "demoRow 11" and m = "demoElement 200 (demoModalText 11)" and v = "[]"]
  have e: "map_of (demoRecord1 ''Bella Union'' ''All Day'') ''ingredients'' = Some (Str [])"
    by (rule T4 [THEN conjunct2, THEN conjunct2, THEN conjunct2, THEN mp, OF conjI [OF 10 11]])
  have l2: "length (take 2000 (join '' '' ?wds)) = 2000" using len by simp
  have a': "extractIngredients (''Nutrition Information Protein 5g INGREDIENTS:  water,   salt ''
                       @ [CHR 0x0A] @ '' sugar * Contains: soy'') = Inr ''water, salt sugar''"
    using a b 2 4 by simp
  have c': "extractIngredients (''Nutrition Information Ingredients: ''
                         @ join '' '' ?wds @ ''*'') = Inr (take 2000 (join '' '' ?wds))"
    using c by simp
  from a' len c' l2 10 e show ?thesis by (intro conjI)
qed

theorem ingredients_extraction_counterexample:
  "includes_str ''Nutrition Information Ingredients: oats, nutritional yeast'' ''Nutrition Information''
   \<and> extractIngredients ''Nutrition Information Ingredients: oats, nutritional yeast'' = Inr ''oats,''
   \<and> \<not> includes_str ''oats, nutritional yeast'' ''*''
   \<and> \<not> includes_str ''oats, nutritional yeast'' ''Contains:''
   \<and> \<not> includes_str ''oats, nutritional yeast'' ''Allergen''
   \<and> \<not> includes_str ''oats, nutritional yeast'' ''Nutrition''
   \<and> length (join ([CHR 0x0A] @ ''    '') (replicate 299 ''flour'' @ [''buttermilk''])) = 3000
   \<and> extractIngredients
        (''Nutrition Information Ingredients: ''
         @ join ([CHR 0x0A] @ ''    '') (replicate 299 ''flour'' @ [''buttermilk'']))
     = Inr (join '' '' (replicate 299 ''flour'' @ [''buttermilk'']))
   \<and> length (join '' '' (replicate 299 ''flour'' @ [''buttermilk''])) = 1804"
proof -
  have 1: "includes_str ''Nutrition Information Ingredients: oats, nutritional yeast'' ''Nutrition Information''
   \<and> extractIngredients ''Nutrition Information Ingredients: oats, nutritional yeast'' = Inr ''oats,''
   \<and> \<not> includes_str ''oats, nutritional yeast'' ''*''
   \<and> \<not> includes_str ''oats, nutritional yeast'' ''Contains:''
   \<and> \<not> includes_str ''oats, nutritional yeast'' ''Allergen''
   \<and> \<not> includes_str ''oats, nutritional yeast'' ''Nutrition''"
    by code_simp
  let ?wds = "replicate 299 ''flour'' @ [''buttermilk'']"
  let ?sep = "[CHR 0x0A] @ ''    ''"
  let ?B = "join ?sep ?wds"
  let ?p = "''Nutrition Information ''"
  let ?t = "''Ingredients: '' @ ?B"
  have len: "length ?B = 3000" by (simp add: length_join sum_list_replicate)
  have len': "length (join '' '' ?wds) = 1804" by (simp add: length_join sum_list_replicate)
  have k: "list_all (\<lambda>c. \<not> ieq (CHR ''*'') c \<and> \<not> ieq (CHR ''C'') c \<and> \<not> ieq (CHR ''A'') c
                         \<and> \<not> ieq (CHR ''N'') c) ([CHR 0x0A] @ '' flourbtemilk'')"
    by code_simp
  have l1: "list_all (\<lambda>c. c \<in> set ([CHR 0x0A] @ '' flourbtemilk'')) ?sep" by code_simp
  have l2: "list_all (\<lambda>c. c \<in> set ([CHR 0x0A] @ '' flourbtemilk'')) ''flour''" by code_simp
  have l3: "list_all (\<lambda>c. c \<in> set ([CHR 0x0A] @ '' flourbtemilk'')) ''buttermilk''" by code_simp
  have "set ?B \<subseteq> set ([CHR 0x0A] @ '' flourbtemilk'')"
    by (rule join_letters [OF l1 replicate_snoc_all [of _ "''flour''", OF l2 l3]])
  then have sub: "set ('' '' @ ?B @ []) \<subseteq> set ([CHR 0x0A] @ '' flourbtemilk'')" by simp
  have h: "istarts ?t ''Ingredients:''"
    "\<not> starts_in (\<lambda>t. istarts t ''Ingredients:'') ?p ?t"
    "after_label ''Ingredients:'' ?t = ('' '' @ ?B @ []) @ []"
    "\<not> starts_in delim_at ('' '' @ ?B @ []) []" "delim_at []"
        apply (rule label_here)
       apply (rule label_first)
      apply (subst label_rest, simp)
     apply (rule no_delim_letters [OF k sub])
    apply (simp add: delim_at_def)
    done
  have w: "?wds \<noteq> []" "\<forall>w\<in>set ?wds. w \<noteq> [] \<and> (\<forall>c\<in>set w. \<not> is_space c)"
    "?sep \<noteq> []" "\<forall>c\<in>set ?sep. is_space c" "\<forall>c\<in>set '' ''. is_space c"
    "\<forall>c\<in>set []. is_space c"
    by (auto simp: is_space_def)
  have "extractIngredients (?p @ ?t) = Inr (take 2000 (collapse_ws (trim ('' '' @ ?B @ []))))"
    by (rule extractIngredients_block [OF h])
  moreover have "collapse_ws (trim ('' '' @ ?B @ [])) = join '' '' ?wds"
    by (rule words_block [OF w])
  ultimately have "extractIngredients (?p @ ?t) = Inr (join '' '' ?wds)"
    using len' by simp
  then have 2: "extractIngredients
        (''Nutrition Information Ingredients: ''
         @ join ([CHR 0x0A] @ ''    '') (replicate 299 ''flour'' @ [''buttermilk'']))
     = Inr (join '' '' (replicate 299 ''flour'' @ [''buttermilk'']))"
    by simp
  from 1 len 2 len' show ?thesis by (simp only: simp_thms)
qed

section \<open>The nutrition fields of a record\<close>

text \<open>
  C3 (as amended).  A record emitted after the nutrition modal was found has, after the five
  row-level fields, every nutrition field with a string value, and a field none of whose
  patterns matched the text of the modal is the empty string.  A record emitted when no
  modal was found has the five row-level fields only: its \<^verbatim>\<open>serving_size\<close> is the string
  captured from the row, and the eleven other nutrition fields are absent.
\<close>

theorem nutrition_fields_of_record:
  "(emits d r rn mp s rec rv (Some m)
      \<longrightarrow> map fst rec = row_fields @ tl nutrition_fields \<and> all_strings rec
          \<and> (\<forall>fp\<in>set field_patterns.
                (\<forall>re\<in>set (snd fp). js_match (textContent m) re = None)
                \<longrightarrow> map_of rec (fst fp) = Some (Str [])))
   \<and> (emits d r rn mp s rec rv None
      \<longrightarrow> map fst rec = row_fields \<and> all_strings rec
          \<and> map_of rec ''serving_size'' = Some (Str (getServingSize rv))
          \<and> (\<forall>f\<in>set (tl nutrition_fields). map_of rec f = None))"
proof (rule conjI; rule impI)
  assume "emits d r rn mp s rec rv (Some m)"
  from emits_found [OF this]
  show "map fst rec = row_fields @ tl nutrition_fields \<and> all_strings rec
          \<and> (\<forall>fp\<in>set field_patterns.
                (\<forall>re\<in>set (snd fp). js_match (textContent m) re = None)
                \<longrightarrow> map_of rec (fst fp) = Some (Str []))"
    by (elim exE conjE) (rule found_record_fields; assumption)
next
  assume "emits d r rn mp s rec rv None"
  from emits_missing [OF this]
  show "map fst rec = row_fields \<and> all_strings rec
          \<and> map_of rec ''serving_size'' = Some (Str (getServingSize rv))
          \<and> (\<forall>f\<in>set (tl nutrition_fields). map_of rec f = None)"
    by (elim exE conjE) (simp add: row_fields_def nutrition_fields_def all_strings_def)
qed

theorem nutrition_fields_of_record_witness:
  "emits demoPage 12 ''Bella Union'' ''All Day'' demoStart
     (demoRecord2 ''Bella Union'' ''All Day'') (demoRow 12) (Some (demoElement 200 (demoModalText 12)))
   \<and> map fst (demoRecord2 ''Bella Union'' ''All Day'') = row_fields @ tl nutrition_fields
   \<and> all_strings (demoRecord2 ''Bella Union'' ''All Day'')
   \<and> js_match (demoModalText 12) re_protein = None
   \<and> map_of (demoRecord2 ''Bella Union'' ''All Day'') ''protein_g'' = Some (Str [])
   \<and> emits demoPage 14 ''Bella Union'' ''All Day'' demoStart
       (demoRecord4 ''Bella Union'' ''All Day'') (demoRow 14) None
   \<and> map fst (demoRecord4 ''Bella Union'' ''All Day'') = row_fields
   \<and> map_of (demoRecord4 ''Bella Union'' ''All Day'') ''protein_g'' = None"
proof -
  have p: "js_match (demoModalText 12) re_protein = None" by code_simp
  have q: "(''protein_g'', [re_protein]) \<in> set field_patterns" by (simp add: field_patterns_def)
  have t: "textContent (demoElement 200 (demoModalText 12)) = demoModalText 12"
    by (simp add: demoElement_def)
  note e2 = demo_emits_2 [of "''Bella Union''" "''All Day''" demoStart]
  note e4 = demo_emits_4 [of "''Bella Union''" "''All Day''" demoStart]
  from nutrition_fields_of_record
         [of demoPage 12 "''Bella Union''" "''All Day''" demoStart
             "demoRecord2 ''Bella Union'' ''All Day''" "demoRow 12"
             "demoElement 200 (demoModalText 12)"] e2
  have a: "map fst (demoRecord2 ''Bella Union'' ''All Day'') = row_fields @ tl nutrition_fields
          \<and> all_strings (demoRecord2 ''Bella Union'' ''All Day'')
          \<and> (\<forall>fp\<in>set field_patterns.
                (\<forall>re\<in>set (snd fp). js_match (demoModalText 12) re = None)
                \<longrightarrow> map_of (demoRecord2 ''Bella Union'' ''All Day'') (fst fp) = Some (Str []))"
    unfolding t by blast
  with p q have b: "map_of (demoRecord2 ''Bella Union'' ''All Day'') ''protein_g'' = Some (Str [])"
    by fastforce
  from nutrition_fields_of_record
         [of demoPage 14 "''Bella Union''" "''All Day''" demoStart
             "demoRecord4 ''Bella Union'' ''All Day''" "demoRow 14"] e4
  have c: "map fst (demoRecord4 ''Bella Union'' ''All Day'') = row_fields
           \<and> (\<forall>f\<in>set (tl nutrition_fields).
                 map_of (demoRecord4 ''Bella Union'' ''All Day'') f = None)"
    by blast
  then have "map_of (demoRecord4 ''Bella Union'' ''All Day'') ''protein_g'' = None"
    by (simp add: nutrition_fields_def)
  with a b c p e2 e4 show ?thesis by simp
qed

theorem nutrition_fields_of_record_counterexample:
  "emits demoPage 14 ''Bella Union'' ''All Day'' demoStart
     (demoRecord4 ''Bella Union'' ''All Day'') (demoRow 14) None
   \<and> map_of (demoRecord4 ''Bella Union'' ''All Day'') ''calories'' = None
   \<and> map_of (demoRecord4 ''Bella Union'' ''All Day'') ''ingredients'' = None"
  using demo_emits_4 [of "''Bella Union''" "''All Day''" demoStart] by (simp add: demoRecord4_def)

section \<open>Serving size: the modal overwrites the row\<close>

text \<open>
  C5.  For every item whose row gave a serving size before the click and whose modal text
  also gives one, the \<^verbatim>\<open>serving_size\<close> of the record is the value from the modal: the row
  value is overwritten, not merged.
\<close>

theorem modal_serving_size_overwrites:
  "emits d r rn mp s rec rv (Some m) \<and> getServingSize rv \<noteq> []
     \<and> extract_serving (textContent m) = Inr srv \<and> srv \<noteq> []
   \<longrightarrow> map_of rec ''serving_size'' = Some (Str srv)"
proof
  assume a: "emits d r rn mp s rec rv (Some m) \<and> getServingSize rv \<noteq> []
     \<and> extract_serving (textContent m) = Inr srv \<and> srv \<noteq> []"
  then have "emits d r rn mp s rec rv (Some m)" by simp
  from emits_found [OF this] a show "map_of rec ''serving_size'' = Some (Str srv)"
    by auto
qed

theorem modal_serving_size_overwrites_witness:
  "emits demoPage 11 ''Bella Union'' ''All Day'' demoStart
     (demoRecord1 ''Bella Union'' ''All Day'') (demoRow 11) (Some (demoElement 200 (demoModalText 11)))
   \<and> getServingSize (demoRow 11) = ''4 oz''
   \<and> extract_serving (demoModalText 11) = Inr ''5 oz (142g)''
   \<and> map_of (demoRecord1 ''Bella Union'' ''All Day'') ''serving_size'' = Some (Str ''5 oz (142g)'')"
proof -
  have 1: "extract_serving (demoModalText 11) = Inr ''5 oz (142g)''" by code_simp
  then have 2: "extract_serving (textContent (demoElement 200 (demoModalText 11))) = Inr ''5 oz (142g)''"
    by (simp add: demoElement_def)
  from modal_serving_size_overwrites
         [of demoPage 11 "''Bella Union''" "''All Day''" demoStart
             "demoRecord1 ''Bella Union'' ''All Day''" "demoRow 11"
             "demoElement 200 (demoModalText 11)" "''5 oz (142g)''"]
       demo_emits_1 [of "''Bella Union''" "''All Day''" demoStart] 1 2 demo_rows(1)
  show ?thesis by simp
qed

section \<open>Serving size: when the row value survives\<close>

text \<open>
  C10.  When the modal is found and none of the three serving-size patterns matches its
  text, the \<^verbatim>\<open>serving_size\<close> of the record is the empty string, whatever was captured from
  the row; the value captured from the row is the \<^verbatim>\<open>serving_size\<close> of the record when no
  modal is found.
\<close>

theorem row_serving_size_survival:
  "(emits d r rn mp s rec rv (Some m)
      \<and> js_match (textContent m) re_serving1 = None \<and> js_match (textContent m) re_serving2 = None
      \<and> js_match (textContent m) re_serving3 = None
      \<longrightarrow> map_of rec ''serving_size'' = Some (Str []))
   \<and> (emits d r rn mp s rec rv None
      \<longrightarrow> map_of rec ''serving_size'' = Some (Str (getServingSize rv)))"
proof (intro conjI impI)
  assume a: "emits d r rn mp s rec rv (Some m)
      \<and> js_match (textContent m) re_serving1 = None \<and> js_match (textContent m) re_serving2 = None
      \<and> js_match (textContent m) re_serving3 = None"
  then have "extract_serving (textContent m) = Inr []"
    by (simp add: extract_serving_def extractMatch_def bindE_def)
  moreover from a have "emits d r rn mp s rec rv (Some m)" by simp
  from emits_found [OF this] obtain srv where
    "extract_serving (textContent m) = Inr srv" "map_of rec ''serving_size'' = Some (Str srv)"
    by auto
  ultimately show "map_of rec ''serving_size'' = Some (Str [])" by simp
next
  assume "emits d r rn mp s rec rv None"
  from emits_missing [OF this] show "map_of rec ''serving_size'' = Some (Str (getServingSize rv))"
    by auto
qed

theorem row_serving_size_survival_witness:
  "emits demoPage 12 ''Bella Union'' ''All Day'' demoStart
     (demoRecord2 ''Bella Union'' ''All Day'') (demoRow 12) (Some (demoElement 200 (demoModalText 12)))
   \<and> getServingSize (demoRow 12) = ''1 each''
   \<and> map_of (demoRecord2 ''Bella Union'' ''All Day'') ''serving_size'' = Some (Str [])
   \<and> emits demoPage 14 ''Bella Union'' ''All Day'' demoStart
       (demoRecord4 ''Bella Union'' ''All Day'') (demoRow 14) None
   \<and> map_of (demoRecord4 ''Bella Union'' ''All Day'') ''serving_size'' = Some (Str ''2 slice'')"
proof -
  have "js_match (demoModalText 12) re_serving1 = None \<and> js_match (demoModalText 12) re_serving2 = None
      \<and> js_match (demoModalText 12) re_serving3 = None"
    by code_simp
  then have 2: "js_match (textContent (demoElement 200 (demoModalText 12))) re_serving1 = None
      \<and> js_match (textContent (demoElement 200 (demoModalText 12))) re_serving2 = None
      \<and> js_match (textContent (demoElement 200 (demoModalText 12))) re_serving3 = None"
    by (simp add: demoElement_def)
  from row_serving_size_survival
         [of demoPage 12 "''Bella Union''" "''All Day''" demoStart
             "demoRecord2 ''Bella Union'' ''All Day''" "demoRow 12"
             "demoElement 200 (demoModalText 12)"]
       demo_emits_2 [of "''Bella Union''" "''All Day''" demoStart] 2
  have a: "map_of (demoRecord2 ''Bella Union'' ''All Day'') ''serving_size'' = Some (Str [])"
    by blast
  from row_serving_size_survival
         [of demoPage 14 "''Bella Union''" "''All Day''" demoStart
             "demoRecord4 ''Bella Union'' ''All Day''" "demoRow 14"]
       demo_emits_4 [of "''Bella Union''" "''All Day''" demoStart]
  have b: "map_of (demoRecord4 ''Bella Union'' ''All Day'') ''serving_size''
           = Some (Str (getServingSize (demoRow 14)))"
    by blast
  from a b demo_rows(3,5) demo_emits_2 [of "''Bella Union''" "''All Day''" demoStart]
    demo_emits_4 [of "''Bella Union''" "''All Day''" demoStart]
  show ?thesis by simp
qed

section \<open>Failure isolation\<close>

text \<open>
  C1.  The body of the item loop of \<^verbatim>\<open>scrapeCurrentPage\<close> never throws: an exception of
  \<^verbatim>\<open>scrapeItemRow\<close> is caught there and logged, and the loop goes on with the rows that
  remain, from the state in which the failed row left the page.  So the loop returns
  normally, there is an outcome for every row, and the dataset is extended by exactly the
  records of the rows that gave one, the counter by their number: the length of the dataset
  is the number of successes, not the number of rows.  \<^verbatim>\<open>scrapeCurrentPage\<close> itself, once the
  categories are expanded and the rows found, is this loop over all the rows found.  In the
  same way the body of the restaurant loop of \<^verbatim>\<open>scrapeAllRestaurants\<close> never throws: an
  exception of \<^verbatim>\<open>scrapeRestaurant\<close> is caught and logged, and the loop goes on with the
  restaurants that remain.  So \<^verbatim>\<open>scrapeAllRestaurants\<close> returns normally, the handler of the
  main function is never entered, every restaurant of \<^verbatim>\<open>RESTAURANTS\<close> has its turn, and the
  dataset at the end is the dataset at the start followed by what each restaurant added in
  its turn; this dataset is what is exported.
\<close>

theorem failure_isolation:
  "fst (itemStep d rn mp r s) = Inr ()
   \<and> (case scrapeItemRow d r rn mp s of
        (Inl e, s1) \<Rightarrow>
          itemStep d rn mp r s
          = (Inr (), s1\<lparr>console := console s1 @ [(Warn, ''Error on item: '' @ message e)],
                        page := wait d delayBetweenClicks (page s1)\<rparr>)
      | (Inr _, _) \<Rightarrow> True)
   \<and> fst (forEach rows (itemStep d rn mp) s) = Inr ()
   \<and> forEach (before @ r # after) (itemStep d rn mp) s
       = forEach after (itemStep d rn mp)
           (snd (itemStep d rn mp r (snd (forEach before (itemStep d rn mp) s))))
   \<and> length (outcomes d rn mp rows s) = length rows
   \<and> allData (snd (forEach rows (itemStep d rn mp) s))
       = allData s @ successes (outcomes d rn mp rows s)
   \<and> totalItemsScraped (snd (forEach rows (itemStep d rn mp) s))
       = totalItemsScraped s + length (successes (outcomes d rn mp rows s))
   \<and> fst (restaurantStep d rest s) = Inr ()
   \<and> (case scrapeRestaurant d rest (s\<lparr>console := console s @ [(Log, name rest)]\<rparr>) of
        (Inl e, s1) \<Rightarrow>
          restaurantStep d rest s
          = (Inr (), s1\<lparr>console := console s1
                                     @ [(Err, ''Error scraping '' @ name rest @ '': '' @ message e)],
                        page := wait d delayAfterRestaurant (page s1)\<rparr>)
      | (Inr _, _) \<Rightarrow> True)
   \<and> fst (forEach rests (restaurantStep d) s) = Inr ()
   \<and> forEach (pre @ rest # post) (restaurantStep d) s
       = forEach post (restaurantStep d)
           (snd (restaurantStep d rest (snd (forEach pre (restaurantStep d) s))))
   \<and> (expandAllCategories d s = (Inr (), s1) \<and> fst (findAllItemRows d s1) = Inr found
      \<longrightarrow> scrapeCurrentPage d rn mp s
            = forEach found (itemStep d rn mp)
                (s1\<lparr>console := console s1 @ [(Log, ''Found items'')]\<rparr>)
          \<and> fst (scrapeCurrentPage d rn mp s) = Inr ()
          \<and> length (outcomes d rn mp found
                       (s1\<lparr>console := console s1 @ [(Log, ''Found items'')]\<rparr>))
            = length found
          \<and> allData (snd (scrapeCurrentPage d rn mp s))
            = allData s @ successes (outcomes d rn mp found
                                       (s1\<lparr>console := console s1 @ [(Log, ''Found items'')]\<rparr>)))
   \<and> allData (snd (forEach rests (restaurantStep d) s)) = allData s @ concat (harvest d rests s)
   \<and> length (harvest d rests s) = length rests
   \<and> fst (scrapeAllRestaurants d s) = Inr ()
   \<and> main d s = scrapeAllRestaurants d s
   \<and> allData (snd (scrapeAllRestaurants d s))
     = allData s @ concat (harvest d RESTAURANTS
         (s\<lparr>console := console s @ [(Log, ''Starting scrape of restaurants...'')]\<rparr>))
   \<and> downloads (snd (scrapeAllRestaurants d s))
     = downloads s
       @ (case allData (snd (scrapeAllRestaurants d s)) of
            [] \<Rightarrow> []
          | first # _ \<Rightarrow> [csvContent first (allData (snd (scrapeAllRestaurants d s)))])"
proof -
  have c: "expandAllCategories d s = (Inr (), s1) \<and> fst (findAllItemRows d s1) = Inr found
      \<longrightarrow> scrapeCurrentPage d rn mp s
            = forEach found (itemStep d rn mp)
                (s1\<lparr>console := console s1 @ [(Log, ''Found items'')]\<rparr>)
          \<and> fst (scrapeCurrentPage d rn mp s) = Inr ()
          \<and> length (outcomes d rn mp found
                       (s1\<lparr>console := console s1 @ [(Log, ''Found items'')]\<rparr>))
            = length found
          \<and> allData (snd (scrapeCurrentPage d rn mp s))
            = allData s @ successes (outcomes d rn mp found
                                       (s1\<lparr>console := console s1 @ [(Log, ''Found items'')]\<rparr>))"
  proof
    assume a: "expandAllCategories d s = (Inr (), s1) \<and> fst (findAllItemRows d s1) = Inr found"
    let ?s2 = "s1\<lparr>console := console s1 @ [(Log, ''Found items'')]\<rparr>"
    from a have run: "scrapeCurrentPage d rn mp s = forEach found (itemStep d rn mp) ?s2"
      by (intro scrapeCurrentPage_run) simp_all
    from a have "allData s1 = allData s"
      using keeps_unchanged [OF keeps_expandAllCategories, of d s "Inr ()" s1] by simp
    then have d: "allData (snd (scrapeCurrentPage d rn mp s))
                  = allData s @ successes (outcomes d rn mp found ?s2)"
      unfolding run using conjunct1 [OF loop_effect, of found d rn mp ?s2]
      by (simp del: forEach.simps)
    have t: "fst (scrapeCurrentPage d rn mp s) = Inr ()"
      unfolding run by (rule forEach_total) (rule itemStep_total)
    from run t d show "scrapeCurrentPage d rn mp s = forEach found (itemStep d rn mp) ?s2
          \<and> fst (scrapeCurrentPage d rn mp s) = Inr ()
          \<and> length (outcomes d rn mp found ?s2) = length found
          \<and> allData (snd (scrapeCurrentPage d rn mp s))
            = allData s @ successes (outcomes d rn mp found ?s2)"
      by (simp only: length_outcomes simp_thms)
  qed
  have i: "forEach (before @ r # after) (itemStep d rn mp) s
       = forEach after (itemStep d rn mp)
           (snd (itemStep d rn mp r (snd (forEach before (itemStep d rn mp) s))))"
    by (simp add: forEach_append [of "itemStep d rn mp" before] forEach_Cons_total itemStep_total
             del: forEach.simps)
  have j: "forEach (pre @ rest # post) (restaurantStep d) s
       = forEach post (restaurantStep d)
           (snd (restaurantStep d rest (snd (forEach pre (restaurantStep d) s))))"
    by (simp add: forEach_append [of "restaurantStep d" pre] forEach_Cons_total restaurantStep_total
             del: forEach.simps)
  show ?thesis
    by (intro conjI itemStep_total itemStep_caught restaurantStep_total restaurantStep_caught
              i j length_outcomes forEach_total
              conjunct1 [OF loop_effect] conjunct2 [OF loop_effect]
              c conjunct1 [OF harvest_effect] length_harvest scrapeAllRestaurants_total main_run
              scrapeAllRestaurants_data scrapeAllRestaurants_downloads)
qed

theorem failure_isolation_witness:
  "outcomes demoPage ''Bella Union'' ''All Day'' [11, 12, 13, 14] demoStart
     = [Inr (Some (demoRecord1 ''Bella Union'' ''All Day'')),
        Inr (Some (demoRecord2 ''Bella Union'' ''All Day'')),
        Inl (Thrown ''stale row''),
        Inr (Some (demoRecord4 ''Bella Union'' ''All Day''))]
   \<and> fst (forEach [11, 12, 13, 14] (itemStep demoPage ''Bella Union'' ''All Day'') demoStart) = Inr ()
   \<and> allData (snd (forEach [11, 12, 13, 14] (itemStep demoPage ''Bella Union'' ''All Day'') demoStart))
     = [demoRecord1 ''Bella Union'' ''All Day'', demoRecord2 ''Bella Union'' ''All Day'',
        demoRecord4 ''Bella Union'' ''All Day'']
   \<and> totalItemsScraped
       (snd (forEach [11, 12, 13, 14] (itemStep demoPage ''Bella Union'' ''All Day'') demoStart))
     = 3
   \<and> expandAllCategories demoPage demoStart = (Inr (), demoStart)
   \<and> fst (findAllItemRows demoPage demoStart) = Inr [11, 12, 13, 14]
   \<and> fst (scrapeCurrentPage demoPage ''Bella Union'' ''All Day'' demoStart) = Inr ()
   \<and> allData (snd (scrapeCurrentPage demoPage ''Bella Union'' ''All Day'' demoStart))
     = [demoRecord1 ''Bella Union'' ''All Day'', demoRecord2 ''Bella Union'' ''All Day'',
        demoRecord4 ''Bella Union'' ''All Day'']
   \<and> scrapeRestaurant demoPage \<lparr>name = ''Bseisu Coffee Bar'', unitOid = 10\<rparr> demoStart
     = (Inl (Thrown ''element is detached''), demoStart)
   \<and> harvest demoPage RESTAURANTS
        (demoStart\<lparr>console := [(Log, ''Starting scrape of restaurants...'')]\<rparr>)
     = [[demoRecord1 ''Bella Union'' ''All Day'', demoRecord2 ''Bella Union'' ''All Day'',
         demoRecord4 ''Bella Union'' ''All Day''],
        [], [],
        [demoRecord1 ''Cafe'' ''Breakfast'', demoRecord2 ''Cafe'' ''Breakfast'',
         demoRecord4 ''Cafe'' ''Breakfast'', demoRecord1 ''Cafe'' ''Dinner Specials'',
         demoRecord2 ''Cafe'' ''Dinner Specials'', demoRecord4 ''Cafe'' ''Dinner Specials''],
        [], [], [], [], [], [], [], [], [], [], [], [], [], [], [], [], [], [], [], [], [],
        [], []]
   \<and> fst (main demoPage demoStart) = Inr ()
   \<and> allData (snd (main demoPage demoStart))
     = [demoRecord1 ''Bella Union'' ''All Day'', demoRecord2 ''Bella Union'' ''All Day'',
        demoRecord4 ''Bella Union'' ''All Day'',
        demoRecord1 ''Cafe'' ''Breakfast'', demoRecord2 ''Cafe'' ''Breakfast'',
        demoRecord4 ''Cafe'' ''Breakfast'', demoRecord1 ''Cafe'' ''Dinner Specials'',
        demoRecord2 ''Cafe'' ''Dinner Specials'', demoRecord4 ''Cafe'' ''Dinner Specials'']
   \<and> length (downloads (snd (main demoPage demoStart))) = 1"
proof -
  note f = failure_isolation [where d = demoPage and rn = "''Bella Union''" and mp = "''All Day''"
             and r = 11 and s = demoStart and rows = "[11, 12, 13, 14]" and before = "[]"
             and after = "[]" and rest = "\<lparr>name = [], unitOid = 0\<rparr>" and rests = "[]"
             and pre = "[]" and post = "[]" and ?s1.0 = demoStart and found = "[11, 12, 13, 14]"]
  have a: "allData demoStart = []" "totalItemsScraped demoStart = 0" "downloads demoStart = []"
    "console demoStart = []" "page demoStart = 0"
    by (simp_all add: demoStart_def)
  have e: "expandAllCategories demoPage demoStart = (Inr (), demoStart)" by (rule demo_expand)
  have r: "fst (findAllItemRows demoPage demoStart) = Inr [11, 12, 13, 14]"
    by (simp add: demo_item_rows)
  have b: "scrapeRestaurant demoPage \<lparr>name = ''Bseisu Coffee Bar'', unitOid = 10\<rparr> demoStart
           = (Inl (Thrown ''element is detached''), demoStart)"
    by (rule demo_restaurant_bseisu) (rule a)
  from f have 1: "fst (forEach [11, 12, 13, 14] (itemStep demoPage ''Bella Union'' ''All Day'') demoStart)
               = Inr ()"
    by blast
  from f
  have 2: "allData (snd (forEach [11, 12, 13, 14] (itemStep demoPage ''Bella Union'' ''All Day'') demoStart))
        = allData demoStart
          @ successes (outcomes demoPage ''Bella Union'' ''All Day'' [11, 12, 13, 14] demoStart)"
    by blast
  from f
  have 3: "totalItemsScraped
          (snd (forEach [11, 12, 13, 14] (itemStep demoPage ''Bella Union'' ''All Day'') demoStart))
        = totalItemsScraped demoStart
          + length (successes (outcomes demoPage ''Bella Union'' ''All Day'' [11, 12, 13, 14] demoStart))"
    by blast
  from f e r
  have 4: "fst (scrapeCurrentPage demoPage ''Bella Union'' ''All Day'' demoStart) = Inr ()"
    and 5: "allData (snd (scrapeCurrentPage demoPage ''Bella Union'' ''All Day'' demoStart))
        = allData demoStart
          @ successes (outcomes demoPage ''Bella Union'' ''All Day'' [11, 12, 13, 14]
                         (demoStart\<lparr>console := console demoStart @ [(Log, ''Found items'')]\<rparr>))"
    by blast+
  from f have 6: "fst (scrapeAllRestaurants demoPage demoStart) = Inr ()"
    and 7: "main demoPage demoStart = scrapeAllRestaurants demoPage demoStart"
    and 8: "allData (snd (scrapeAllRestaurants demoPage demoStart))
     = allData demoStart @ concat (harvest demoPage RESTAURANTS
         (demoStart\<lparr>console := console demoStart @ [(Log, ''Starting scrape of restaurants...'')]\<rparr>))"
    and 9: "downloads (snd (scrapeAllRestaurants demoPage demoStart))
     = downloads demoStart
       @ (case allData (snd (scrapeAllRestaurants demoPage demoStart)) of
            [] \<Rightarrow> []
          | first # _ \<Rightarrow> [csvContent first (allData (snd (scrapeAllRestaurants demoPage demoStart)))])"
    by blast+
  have hv: "harvest demoPage RESTAURANTS
        (demoStart\<lparr>console := [(Log, ''Starting scrape of restaurants...'')]\<rparr>)
     = [[demoRecord1 ''Bella Union'' ''All Day'', demoRecord2 ''Bella Union'' ''All Day'',
         demoRecord4 ''Bella Union'' ''All Day''],
        [], [],
        [demoRecord1 ''Cafe'' ''Breakfast'', demoRecord2 ''Cafe'' ''Breakfast'',
         demoRecord4 ''Cafe'' ''Breakfast'', demoRecord1 ''Cafe'' ''Dinner Specials'',
         demoRecord2 ''Cafe'' ''Dinner Specials'', demoRecord4 ''Cafe'' ''Dinner Specials''],
        [], [], [], [], [], [], [], [], [], [], [], [], [], [], [], [], [], [], [], [], [],
        [], []]"
    by (rule demo_harvest)
  have d8: "allData (snd (main demoPage demoStart))
     = [demoRecord1 ''Bella Union'' ''All Day'', demoRecord2 ''Bella Union'' ''All Day'',
        demoRecord4 ''Bella Union'' ''All Day'',
        demoRecord1 ''Cafe'' ''Breakfast'', demoRecord2 ''Cafe'' ''Breakfast'',
        demoRecord4 ''Cafe'' ''Breakfast'', demoRecord1 ''Cafe'' ''Dinner Specials'',
        demoRecord2 ''Cafe'' ''Dinner Specials'', demoRecord4 ''Cafe'' ''Dinner Specials'']"
    unfolding 7 8 a by (simp add: hv)
  then have d9: "length (downloads (snd (main demoPage demoStart))) = 1"
    unfolding 7 9 a unfolding 7 [symmetric] by simp
  have d6: "fst (main demoPage demoStart) = Inr ()" unfolding 7 by (rule 6)
  have o: "successes [Inr (Some (demoRecord1 ''Bella Union'' ''All Day'')),
        Inr (Some (demoRecord2 ''Bella Union'' ''All Day'')),
        Inl (Thrown ''stale row''),
        Inr (Some (demoRecord4 ''Bella Union'' ''All Day''))]
     = [demoRecord1 ''Bella Union'' ''All Day'', demoRecord2 ''Bella Union'' ''All Day'',
        demoRecord4 ''Bella Union'' ''All Day'']"
    by (simp add: successes_def List.map_filter_simps)
  show ?thesis
    apply (intro conjI)
                apply (rule demo_outcomes)
               apply (rule 1)
              apply (simp only: 2 demo_outcomes o a append_Nil)
             apply (simp only: 3 demo_outcomes o a) apply simp
            apply (rule e)
           apply (rule r)
          apply (rule 4)
         apply (simp only: 5 demo_outcomes o a append_Nil)
        apply (rule b)
       apply (rule hv)
      apply (rule d6)
     apply (rule d8)
    apply (rule d9)
    done
qed

section \<open>Meal periods\<close>

text \<open>
  C8.  \<^verbatim>\<open>findMealPeriods\<close> reads the clickable elements and does not change the state.
  Every period it returns is one of these elements, visible, named by its trimmed text,
  which equals or contains a keyword of \<^verbatim>\<open>MEAL_PERIOD_KEYWORDS\<close> and is shorter than 100
  characters; the names are pairwise distinct; every element that passes these tests is
  represented by its name; and the result is empty exactly when no element passes them.
  When \<^verbatim>\<open>scrapeRestaurant\<close> finds the link of the restaurant and, after the click on it, no
  element passes the tests, then it only extends the dataset, and every record that it
  adds has \<^verbatim>\<open>meal_period\<close> equal to \<^verbatim>\<open>All Day\<close>.
\<close>

theorem meal_period_detection:
  "(querySelectorAll d Clickables (page s) = Inr els \<longrightarrow>
      (\<exists>periods. findMealPeriods d s = (Inr periods, s)
         \<and> (\<forall>p\<in>set periods. period_element p \<in> set els \<and> visible (period_element p)
               \<and> period_name p = trim (textContent (period_element p))
               \<and> (\<exists>k\<in>set MEAL_PERIOD_KEYWORDS.
                     period_name p = k \<or> includes_str (period_name p) k)
               \<and> length (period_name p) < 100)
         \<and> distinct (map period_name periods)
         \<and> (\<forall>el\<in>set els. detectable el \<longrightarrow> trim (textContent el) \<in> period_name ` set periods)
         \<and> (periods = [] \<longleftrightarrow> (\<forall>el\<in>set els. \<not> detectable el))))
   \<and> (findRestaurantLink d (name restaurant) s = (Inr (Some link), s)
       \<and> click d (handle link) (page s) = Inr w
       \<and> querySelectorAll d Clickables (wait d delayAfterRestaurant w) = Inr els'
       \<and> (\<forall>el\<in>set els'. \<not> detectable el)
      \<longrightarrow> grows (\<lambda>rec. map_of rec ''meal_period'' = Some (Str ''All Day'')) s
            (snd (scrapeRestaurant d restaurant s)))"
proof (intro conjI impI)
  assume q: "querySelectorAll d Clickables (page s) = Inr els"
  show "\<exists>periods. findMealPeriods d s = (Inr periods, s)
         \<and> (\<forall>p\<in>set periods. period_element p \<in> set els \<and> visible (period_element p)
               \<and> period_name p = trim (textContent (period_element p))
               \<and> (\<exists>k\<in>set MEAL_PERIOD_KEYWORDS.
                     period_name p = k \<or> includes_str (period_name p) k)
               \<and> length (period_name p) < 100)
         \<and> distinct (map period_name periods)
         \<and> (\<forall>el\<in>set els. detectable el \<longrightarrow> trim (textContent el) \<in> period_name ` set periods)
         \<and> (periods = [] \<longleftrightarrow> (\<forall>el\<in>set els. \<not> detectable el))"
  proof (intro exI conjI ballI impI)
    show "findMealPeriods d s = (Inr (foldl addPeriod [] els), s)"
      using q by (rule findMealPeriods_result)
  next
    fix p assume "p \<in> set (foldl addPeriod [] els)"
    from foldl_addPeriod_sound [OF this]
    have p: "period_element p \<in> set els" "detectable (period_element p)"
      "period_name p = trim (textContent (period_element p))" by simp_all
    show "period_element p \<in> set els" by (rule p)
    show "visible (period_element p)" using p by (simp add: detectable_def)
    show "period_name p = trim (textContent (period_element p))" by (rule p)
    show "\<exists>k\<in>set MEAL_PERIOD_KEYWORDS. period_name p = k \<or> includes_str (period_name p) k"
      using p by (simp add: detectable_def isMatch_def list_ex_iff)
    show "length (period_name p) < 100" using p by (simp add: detectable_def)
  next
    show "distinct (map period_name (foldl addPeriod [] els))"
      by (rule foldl_addPeriod_distinct) simp
  next
    fix el assume "el \<in> set els" "detectable el"
    then show "trim (textContent el) \<in> period_name ` set (foldl addPeriod [] els)"
      by (rule foldl_addPeriod_complete)
  next
    show "(foldl addPeriod [] els = []) = (\<forall>el\<in>set els. \<not> detectable el)"
      by (rule foldl_addPeriod_empty)
  qed
next
  assume "findRestaurantLink d (name restaurant) s = (Inr (Some link), s)
       \<and> click d (handle link) (page s) = Inr w
       \<and> querySelectorAll d Clickables (wait d delayAfterRestaurant w) = Inr els'
       \<and> (\<forall>el\<in>set els'. \<not> detectable el)"
  then show "grows (\<lambda>rec. map_of rec ''meal_period'' = Some (Str ''All Day'')) s
            (snd (scrapeRestaurant d restaurant s))"
    by (blast intro: scrapeRestaurant_fallback)
qed

theorem meal_period_detection_witness:
  "findMealPeriods demoPage (demoStart\<lparr>page := 101\<rparr>)
   = (Inr [\<lparr>period_name = ''Breakfast'', period_element = demoElement 110 '' Breakfast ''\<rparr>,
           \<lparr>period_name = ''Dinner Specials'',
            period_element = demoElement 113 ''Dinner Specials''\<rparr>],
      demoStart\<lparr>page := 101\<rparr>)
   \<and> list_all (\<lambda>el. \<not> detectable el) (demoClickables 100)
   \<and> grows (\<lambda>rec. map_of rec ''meal_period'' = Some (Str ''All Day'')) demoStart
       (snd (scrapeRestaurant demoPage \<lparr>name = ''Bella Union'', unitOid = 3\<rparr> demoStart))
   \<and> allData (snd (scrapeRestaurant demoPage \<lparr>name = ''Bella Union'', unitOid = 3\<rparr> demoStart))
     = [demoRecord1 ''Bella Union'' ''All Day'', demoRecord2 ''Bella Union'' ''All Day'',
        demoRecord4 ''Bella Union'' ''All Day'']"
proof -
  note t1 = meal_period_detection [of demoPage "demoStart\<lparr>page := 101\<rparr>" "demoClickables 101"]
  note t2 = meal_period_detection [of demoPage demoStart "demoClickables 0"
              "\<lparr>name = ''Bella Union'', unitOid = 3\<rparr>" "demoElement 100 ''Bella Union''" 100
              "demoClickables 100"]
  have n: "\<forall>el\<in>set (demoClickables 100). \<not> detectable el"
    using demo_no_periods by (simp add: list_all_iff)
  have l: "findRestaurantLink demoPage (name \<lparr>name = ''Bella Union'', unitOid = 3\<rparr>) demoStart
           = (Inr (Some (demoElement 100 ''Bella Union'')), demoStart)"
    by (simp add: demo_restaurant_link)
  have c: "click demoPage (handle (demoElement 100 ''Bella Union'')) (page demoStart) = Inr 100"
    by (simp add: demo_prims)
  have q: "querySelectorAll demoPage Clickables (wait demoPage delayAfterRestaurant 100)
           = Inr (demoClickables 100)"
    by (simp add: demo_prims)
  have "querySelectorAll demoPage Clickables (page (demoStart\<lparr>page := 101\<rparr>))
        = Inr (demoClickables 101)"
    by (simp add: demo_prims)
  with t1 obtain periods where
    p: "findMealPeriods demoPage (demoStart\<lparr>page := 101\<rparr>) = (Inr periods, demoStart\<lparr>page := 101\<rparr>)"
    by blast
  then have "periods
           = [\<lparr>period_name = ''Breakfast'', period_element = demoElement 110 '' Breakfast ''\<rparr>,
              \<lparr>period_name = ''Dinner Specials'',
               period_element = demoElement 113 ''Dinner Specials''\<rparr>]"
    by (simp add: findMealPeriods_def andThen_def observe_def ret_def demo_prims demo_periods)
  with p have 1: "findMealPeriods demoPage (demoStart\<lparr>page := 101\<rparr>)
           = (Inr [\<lparr>period_name = ''Breakfast'', period_element = demoElement 110 '' Breakfast ''\<rparr>,
                   \<lparr>period_name = ''Dinner Specials'',
                    period_element = demoElement 113 ''Dinner Specials''\<rparr>],
              demoStart\<lparr>page := 101\<rparr>)"
    by simp
  from t2 l c q n
  have 3: "grows (\<lambda>rec. map_of rec ''meal_period'' = Some (Str ''All Day'')) demoStart
             (snd (scrapeRestaurant demoPage \<lparr>name = ''Bella Union'', unitOid = 3\<rparr> demoStart))"
    by blast
  have "allData (snd (scrapeRestaurant demoPage \<lparr>name = ''Bella Union'', unitOid = 3\<rparr> demoStart))
        = allData demoStart @ [demoRecord1 ''Bella Union'' ''All Day'',
            demoRecord2 ''Bella Union'' ''All Day'', demoRecord4 ''Bella Union'' ''All Day'']"
    unfolding scrapeRestaurant_no_periods [OF l c q n]
    by (simp add: andThen_def [of "logTo Log ''No meal periods found, scraping all items...''"]
                  logTo_def demo_scrapeCurrentPage)
  then have 4: "allData (snd (scrapeRestaurant demoPage \<lparr>name = ''Bella Union'', unitOid = 3\<rparr>
                                demoStart))
        = [demoRecord1 ''Bella Union'' ''All Day'', demoRecord2 ''Bella Union'' ''All Day'',
           demoRecord4 ''Bella Union'' ''All Day'']"
    by (simp add: demoStart_def)
  from 1 demo_no_periods 3 4 show ?thesis by (intro conjI)
qed


section \<open>Dietary labels\<close>

text \<open>
  C9.  The pass over the images appends a label for every image whose text names one; it
  does not look whether the label is already there, as the pass over the text of the row
  does (\<^verbatim>\<open>!labels.includes(label)\<close>, line 340).  A row with two images that both say
  \<^verbatim>\<open>vegan\<close> therefore gets the label twice, \<^verbatim>\<open>Vegan; Vegan\<close>, while the text pass adds no third
  one for the word \<^verbatim>\<open>Vegan\<close> in the text of the row.  The row of the example, with one image
  \<^verbatim>\<open>Vegan option\<close> and the word \<^verbatim>\<open>Vegetarian\<close> in its text, gets \<^verbatim>\<open>Vegan; Vegetarian\<close>.
\<close>

theorem dietary_labels_duplicate:
  "getDietaryLabels
     \<lparr>hasTh = False, tds = [''Garden Salad'', ''1 each''],
      itemLink = Some (demoElement 15 ''Garden Salad''),
      imgs = [(''Vegan'', []), ([], ''Vegan friendly'')],
      rowText = ''Garden Salad Vegan 1 each''\<rparr>
   = ''Vegan; Vegan''
   \<and> getDietaryLabels
     \<lparr>hasTh = False, tds = [''Tofu Bowl'', ''4 oz''],
      itemLink = Some (demoElement 11 ''Tofu Bowl''),
      imgs = [(''Vegan option'', [])],
      rowText = ''Tofu Bowl 4 oz Vegetarian''\<rparr>
   = ''Vegan; Vegetarian''"
  by code_simp

section \<open>The CSV round trip\<close>



section \<open>The export guard\<close>

text \<open>
  C7.  Exporting a dataset of zero records reports an error on the console and downloads
  nothing: the run continues normally, the list of downloaded files is what it was, and
  the only effect is the error message.  No file with a header only or with zero rows is
  produced.
\<close>

theorem empty_export_guard:
  "downloadCSV [] s = (Inr (), s\<lparr>console := console s @ [(Err, ''No data to export!'')]\<rparr>)
   \<and> downloads (snd (downloadCSV [] s)) = downloads s"
  by (simp add: downloadCSV_def logTo_def)

end
